theory Spec2Isabelle
  imports Complex_Main
begin

section \<open>Conventions of the embedding\<close>

text \<open>
  The three translation units \<^verbatim>\<open>hmm.cpp\<close>, \<^verbatim>\<open>dtw.cpp\<close> and \<^verbatim>\<open>audio_processor.cpp\<close>
  are embedded function by function.

  \<^item> A \<^verbatim>\<open>double\<close> is a \<^typ>\<open>real\<close>: arithmetic is exact, rounding is not modelled.
    Where the source produces \<^verbatim>\<open>std::numeric_limits<double>::infinity()\<close> (dtw.cpp) the
    value type gets an explicit constructor for it. The division of \<^verbatim>\<open>calculatePitch\<close>,
    whose rounded quotients are truncated to the bounds of a loop, is a parameter of the
    embedding.
  \<^item> An \<^verbatim>\<open>int\<close> is an \<^typ>\<open>int\<close>; the one addition of dtw.cpp that a caller can drive
    past \<^verbatim>\<open>INT_MAX\<close> is written with its 32-bit wrap-around.
  \<^item> \<^verbatim>\<open>std::vector::operator[]\<close> outside the vector is undefined behaviour in C++.
    In hmm.cpp and audio_processor.cpp every element access is checked and yields
    \<open>Inl OutOfBounds\<close> there; constructing a vector of negative length yields
    \<open>Inl LengthError\<close> (the constructor throws).
  \<^item> \<^verbatim>\<open>static_cast<int>\<close> of a \<^verbatim>\<open>double\<close> whose truncation is not a 32-bit \<^verbatim>\<open>int\<close> is
    undefined behaviour as well, and yields \<open>Inl CastOverflow\<close>.
  \<^item> A counting \<^verbatim>\<open>for\<close> loop is \<open>for_up\<close> or \<open>for_down\<close> over the loop state; the
    loops of dtw.cpp, which cannot fail, are \<open>loop_up\<close>.
\<close>

datatype error = OutOfBounds | LengthError | CastOverflow

definition bindE :: "error + 'a \<Rightarrow> ('a \<Rightarrow> error + 'b) \<Rightarrow> error + 'b" where
  "bindE m f = (case m of Inl e \<Rightarrow> Inl e | Inr x \<Rightarrow> f x)"

text \<open>\<^verbatim>\<open>v[i]\<close> as a read and as a write, for a signed index.\<close>

definition vec_at :: "'a list \<Rightarrow> int \<Rightarrow> error + 'a" where
  "vec_at xs i = (if 0 \<le> i \<and> i < int (length xs) then Inr (xs ! nat i) else Inl OutOfBounds)"

definition vec_put :: "'a list \<Rightarrow> int \<Rightarrow> 'a \<Rightarrow> error + 'a list" where
  "vec_put xs i v = (if 0 \<le> i \<and> i < int (length xs) then Inr (xs[nat i := v]) else Inl OutOfBounds)"

text \<open>\<^verbatim>\<open>m[i][j]\<close> as a read and as a write.\<close>

definition vec_at2 :: "'a list list \<Rightarrow> int \<Rightarrow> int \<Rightarrow> error + 'a" where
  "vec_at2 m i j = bindE (vec_at m i) (\<lambda>row. vec_at row j)"

definition vec_put2 :: "'a list list \<Rightarrow> int \<Rightarrow> int \<Rightarrow> 'a \<Rightarrow> error + 'a list list" where
  "vec_put2 m i j v = bindE (vec_at m i) (\<lambda>row. bindE (vec_put row j v) (\<lambda>row'. vec_put m i row'))"

text \<open>\<^verbatim>\<open>std::vector<T>(n, v)\<close> for a signed \<open>n\<close>.\<close>

definition new_vector :: "int \<Rightarrow> 'a \<Rightarrow> error + 'a list" where
  "new_vector n v = (if n < 0 then Inl LengthError else Inr (replicate (nat n) v))"

text \<open>\<^verbatim>\<open>for (int i = a; i < n; i++) body\<close>, the body acting on the loop state.\<close>

function for_up :: "int \<Rightarrow> int \<Rightarrow> (int \<Rightarrow> 's \<Rightarrow> error + 's) \<Rightarrow> 's \<Rightarrow> error + 's" where
  "for_up i n body st =
     (if i < n
      then (case body i st of Inl e \<Rightarrow> Inl e | Inr st' \<Rightarrow> for_up (i + 1) n body st')
      else Inr st)"
  by pat_completeness auto
termination
  by (relation "measure (\<lambda>(i, n, body, st). nat (n - i))") auto

text \<open>\<^verbatim>\<open>for (int i = a; i >= lo; i--) body\<close>.\<close>

function for_down :: "int \<Rightarrow> int \<Rightarrow> (int \<Rightarrow> 's \<Rightarrow> error + 's) \<Rightarrow> 's \<Rightarrow> error + 's" where
  "for_down i lo body st =
     (if lo \<le> i
      then (case body i st of Inl e \<Rightarrow> Inl e | Inr st' \<Rightarrow> for_down (i - 1) lo body st')
      else Inr st)"
  by pat_completeness auto
termination
  by (relation "measure (\<lambda>(i, lo, body, st). nat (i - lo + 1))") auto

section \<open>hmm.cpp\<close>

definition LOG_ZERO :: real where
  "LOG_ZERO = - (10 ^ 30)"

text \<open>
  \<^verbatim>\<open>*std::max_element(first, last)\<close> on a non-empty range: \<open>largest\<close> starts at the first
  element and moves to a later one only when that one is strictly greater.
\<close>

fun max_element :: "real \<Rightarrow> real list \<Rightarrow> real" where
  "max_element largest [] = largest"
| "max_element largest (v # vs) = max_element (if largest < v then v else largest) vs"

definition log_sum_exp :: "real list \<Rightarrow> real" where
  "log_sum_exp log_values =
     (case log_values of
        [] \<Rightarrow> LOG_ZERO
      | v # vs \<Rightarrow>
          let max_val = max_element v vs in
          if max_val = LOG_ZERO then LOG_ZERO
          else
            let sum = fold (\<lambda>val sum. if val \<noteq> LOG_ZERO then sum + exp (val - max_val) else sum)
                        log_values 0
            in max_val + ln sum)"

record HMM =
  num_states :: int
  num_observations :: int
  transition_probs :: "real list list"
  emission_probs :: "real list list"
  initial_probs :: "real list"

text \<open>The constructor: the three \<^verbatim>\<open>resize\<close> calls, each building its fill vector first.\<close>

definition new_HMM :: "int \<Rightarrow> int \<Rightarrow> error + HMM" where
  "new_HMM states observations =
     bindE (new_vector states LOG_ZERO) (\<lambda>trow.
     bindE (new_vector states trow) (\<lambda>tp.
     bindE (new_vector observations LOG_ZERO) (\<lambda>erow.
     bindE (new_vector states erow) (\<lambda>ep.
     bindE (new_vector states LOG_ZERO) (\<lambda>ip.
       Inr \<lparr>num_states = states, num_observations = observations,
            transition_probs = tp, emission_probs = ep, initial_probs = ip\<rparr>)))))"

text \<open>The class invariant the constructor establishes: the tables have the declared sizes.\<close>

definition wf_hmm :: "HMM \<Rightarrow> bool" where
  "wf_hmm h =
     (0 \<le> num_states h \<and> 0 \<le> num_observations h \<and>
      length (transition_probs h) = nat (num_states h) \<and>
      list_all (\<lambda>row. length row = nat (num_states h)) (transition_probs h) \<and>
      length (emission_probs h) = nat (num_states h) \<and>
      list_all (\<lambda>row. length row = nat (num_observations h)) (emission_probs h) \<and>
      length (initial_probs h) = nat (num_states h))"

definition setTransitionProb :: "HMM \<Rightarrow> int \<Rightarrow> int \<Rightarrow> real \<Rightarrow> error + HMM" where
  "setTransitionProb h from_state to_state prob =
     (if prob > 0 \<and> from_state < num_states h \<and> to_state < num_states h
      then bindE (vec_put2 (transition_probs h) from_state to_state (ln prob))
             (\<lambda>tp. Inr (h\<lparr>transition_probs := tp\<rparr>))
      else Inr h)"

definition setEmissionProb :: "HMM \<Rightarrow> int \<Rightarrow> int \<Rightarrow> real \<Rightarrow> error + HMM" where
  "setEmissionProb h state observation prob =
     (if prob > 0 \<and> state < num_states h \<and> observation < num_observations h
      then bindE (vec_put2 (emission_probs h) state observation (ln prob))
             (\<lambda>ep. Inr (h\<lparr>emission_probs := ep\<rparr>))
      else Inr h)"

definition setInitialProb :: "HMM \<Rightarrow> int \<Rightarrow> real \<Rightarrow> error + HMM" where
  "setInitialProb h state prob =
     (if prob > 0 \<and> state < num_states h
      then bindE (vec_put (initial_probs h) state (ln prob))
             (\<lambda>ip. Inr (h\<lparr>initial_probs := ip\<rparr>))
      else Inr h)"

text \<open>
  The first column of the Viterbi table and of the forward table (the same loop in both
  functions): the guard is evaluated for every state, and only its upper bound is tested.
\<close>

definition init_first_column :: "HMM \<Rightarrow> int list \<Rightarrow> real list list \<Rightarrow> error + real list list" where
  "init_first_column h observations table =
     for_up 0 (num_states h) (\<lambda>s table.
       bindE (vec_at observations 0) (\<lambda>sym.
         if sym < num_observations h
         then bindE (vec_at (initial_probs h) s) (\<lambda>ip.
              bindE (vec_at2 (emission_probs h) s sym) (\<lambda>ep.
                vec_put2 table 0 s (ip + ep)))
         else Inr table)) table"

text \<open>The innermost loop of \<^verbatim>\<open>viterbi\<close>: the state is \<open>(max_prob, best_prev_state)\<close>.\<close>

definition viterbi_best_prev ::
  "HMM \<Rightarrow> int list \<Rightarrow> real list list \<Rightarrow> int \<Rightarrow> int \<Rightarrow> error + (real \<times> int)" where
  "viterbi_best_prev h observations viterbi_table t s =
     for_up 0 (num_states h) (\<lambda>prev_s (max_prob, best_prev_state).
       bindE (vec_at2 viterbi_table (t - 1) prev_s) (\<lambda>v.
       bindE (vec_at2 (transition_probs h) prev_s s) (\<lambda>a.
       bindE (vec_at observations t) (\<lambda>sym.
       bindE (vec_at2 (emission_probs h) s sym) (\<lambda>b.
         let prob = v + a + b in
         if prob > max_prob then Inr (prob, prev_s) else Inr (max_prob, best_prev_state))))))
     (LOG_ZERO, - 1)"

definition viterbi_column ::
  "HMM \<Rightarrow> int list \<Rightarrow> int \<Rightarrow> real list list \<times> int list list \<Rightarrow>
   error + (real list list \<times> int list list)" where
  "viterbi_column h observations t tables =
     for_up 0 (num_states h) (\<lambda>s (viterbi_table, path).
       bindE (viterbi_best_prev h observations viterbi_table t s) (\<lambda>(max_prob, best_prev_state).
       bindE (vec_put2 viterbi_table t s max_prob) (\<lambda>viterbi_table'.
       bindE (vec_put2 path t s best_prev_state) (\<lambda>path'.
         Inr (viterbi_table', path'))))) tables"

text \<open>The two tables of \<^verbatim>\<open>viterbi\<close> after the fill (lines 71 to 103), for \<open>T > 0\<close>.\<close>

definition viterbi_fill :: "HMM \<Rightarrow> int list \<Rightarrow> error + (real list list \<times> int list list)" where
  "viterbi_fill h observations =
     (let T = int (length observations) in
      bindE (new_vector (num_states h) LOG_ZERO) (\<lambda>vrow.
      bindE (new_vector T vrow) (\<lambda>viterbi_table.
      bindE (new_vector (num_states h) (- 1)) (\<lambda>prow.
      bindE (new_vector T prow) (\<lambda>path.
      bindE (init_first_column h observations viterbi_table) (\<lambda>viterbi_table.
        for_up 1 T (\<lambda>t (viterbi_table, path).
          bindE (vec_at observations t) (\<lambda>sym.
            if sym \<ge> num_observations h then Inr (viterbi_table, path)
            else viterbi_column h observations t (viterbi_table, path)))
          (viterbi_table, path)))))))"

definition viterbi_best_final :: "HMM \<Rightarrow> real list list \<Rightarrow> int \<Rightarrow> error + (real \<times> int)" where
  "viterbi_best_final h viterbi_table T =
     for_up 0 (num_states h) (\<lambda>s (max_final_prob, best_final_state).
       bindE (vec_at2 viterbi_table (T - 1) s) (\<lambda>v.
         if v > max_final_prob then Inr (v, s) else Inr (max_final_prob, best_final_state)))
     (LOG_ZERO, 0)"

definition viterbi_backtrack :: "int list list \<Rightarrow> int \<Rightarrow> int list \<Rightarrow> error + int list" where
  "viterbi_backtrack path T best_path =
     for_down (T - 2) 0 (\<lambda>t best_path.
       bindE (vec_at best_path (t + 1)) (\<lambda>nxt.
       bindE (vec_at2 path (t + 1) nxt) (\<lambda>p.
         vec_put best_path t p))) best_path"

definition viterbi :: "HMM \<Rightarrow> int list \<Rightarrow> error + int list" where
  "viterbi h observations =
     (let T = int (length observations) in
      if T = 0 then Inr []
      else
        bindE (viterbi_fill h observations) (\<lambda>(viterbi_table, path).
        bindE (new_vector T 0) (\<lambda>best_path.
        bindE (viterbi_best_final h viterbi_table T) (\<lambda>(max_final_prob, best_final_state).
        bindE (vec_put best_path (T - 1) best_final_state) (\<lambda>best_path.
          viterbi_backtrack path T best_path)))))"

text \<open>One column of the forward pass: \<open>log_probs\<close> grows by \<^verbatim>\<open>push_back\<close>.\<close>

definition forward_column :: "HMM \<Rightarrow> int list \<Rightarrow> int \<Rightarrow> real list list \<Rightarrow> error + real list list" where
  "forward_column h observations t alpha =
     for_up 0 (num_states h) (\<lambda>s alpha.
       bindE (for_up 0 (num_states h) (\<lambda>prev_s log_probs.
                bindE (vec_at2 alpha (t - 1) prev_s) (\<lambda>v.
                bindE (vec_at2 (transition_probs h) prev_s s) (\<lambda>a.
                  Inr (log_probs @ [v + a])))) []) (\<lambda>log_probs.
       bindE (vec_at observations t) (\<lambda>sym.
       bindE (vec_at2 (emission_probs h) s sym) (\<lambda>b.
         vec_put2 alpha t s (log_sum_exp log_probs + b))))) alpha"

text \<open>The table \<^verbatim>\<open>alpha\<close> of \<^verbatim>\<open>forward\<close> after the forward pass, for \<open>T > 0\<close>.\<close>

definition forward_fill :: "HMM \<Rightarrow> int list \<Rightarrow> error + real list list" where
  "forward_fill h observations =
     (let T = int (length observations) in
      bindE (new_vector (num_states h) LOG_ZERO) (\<lambda>arow.
      bindE (new_vector T arow) (\<lambda>alpha.
      bindE (init_first_column h observations alpha) (\<lambda>alpha.
        for_up 1 T (\<lambda>t alpha.
          bindE (vec_at observations t) (\<lambda>sym.
            if sym \<ge> num_observations h then Inr alpha
            else forward_column h observations t alpha)) alpha))))"

definition forward :: "HMM \<Rightarrow> int list \<Rightarrow> error + real" where
  "forward h observations =
     (let T = int (length observations) in
      if T = 0 then Inr LOG_ZERO
      else
        bindE (forward_fill h observations) (\<lambda>alpha.
        bindE (for_up 0 (num_states h) (\<lambda>s final_probs.
                 bindE (vec_at2 alpha (T - 1) s) (\<lambda>v. Inr (final_probs @ [v]))) [])
          (\<lambda>final_probs. Inr (log_sum_exp final_probs))))"

definition backward_column :: "HMM \<Rightarrow> int list \<Rightarrow> int \<Rightarrow> real list list \<Rightarrow> error + real list list" where
  "backward_column h observations t beta =
     for_up 0 (num_states h) (\<lambda>s beta.
       bindE (for_up 0 (num_states h) (\<lambda>next_s log_probs.
                bindE (vec_at2 (transition_probs h) s next_s) (\<lambda>a.
                bindE (vec_at observations (t + 1)) (\<lambda>sym.
                bindE (vec_at2 (emission_probs h) next_s sym) (\<lambda>b.
                bindE (vec_at2 beta (t + 1) next_s) (\<lambda>v.
                  Inr (log_probs @ [a + b + v])))))) []) (\<lambda>log_probs.
         vec_put2 beta t s (log_sum_exp log_probs))) beta"

text \<open>The table \<^verbatim>\<open>beta\<close> of \<^verbatim>\<open>backward\<close> after the backward pass, for \<open>T > 0\<close>.\<close>

definition backward_fill :: "HMM \<Rightarrow> int list \<Rightarrow> error + real list list" where
  "backward_fill h observations =
     (let T = int (length observations) in
      bindE (new_vector (num_states h) LOG_ZERO) (\<lambda>brow.
      bindE (new_vector T brow) (\<lambda>beta.
      bindE (for_up 0 (num_states h) (\<lambda>s beta. vec_put2 beta (T - 1) s 0) beta) (\<lambda>beta.
        for_down (T - 2) 0 (\<lambda>t beta.
          bindE (vec_at observations (t + 1)) (\<lambda>sym.
            if sym \<ge> num_observations h then Inr beta
            else backward_column h observations t beta)) beta))))"

definition backward :: "HMM \<Rightarrow> int list \<Rightarrow> error + real" where
  "backward h observations =
     (let T = int (length observations) in
      if T = 0 then Inr LOG_ZERO
      else
        bindE (backward_fill h observations) (\<lambda>beta.
        bindE (for_up 0 (num_states h) (\<lambda>s initial_backward_probs.
                 bindE (vec_at observations 0) (\<lambda>sym.
                   if sym < num_observations h
                   then bindE (vec_at (initial_probs h) s) (\<lambda>ip.
                        bindE (vec_at2 (emission_probs h) s sym) (\<lambda>ep.
                        bindE (vec_at2 beta 0 s) (\<lambda>v.
                          Inr (initial_backward_probs @ [ip + ep + v]))))
                   else Inr initial_backward_probs)) [])
          (\<lambda>initial_backward_probs. Inr (log_sum_exp initial_backward_probs))))"

section \<open>dtw.cpp\<close>

text \<open>
  A \<^verbatim>\<open>double\<close> of dtw.cpp is a real or \<^verbatim>\<open>+infinity\<close>, with the IEEE rules for the
  operations the file applies to it: any sum with \<open>PInfinity\<close> is \<open>PInfinity\<close>, every
  real is below \<open>PInfinity\<close>, and \<^verbatim>\<open>std::min(a, b)\<close> is \<open>b\<close> when \<open>b < a\<close> and \<open>a\<close> otherwise.

  Every index of dtw.cpp is a loop counter that stays below the size of the vector it
  indexes, so the counters are naturals, element access is \<open>xs ! i\<close>, and the band
  arithmetic is done on \<^typ>\<open>int\<close> as in the source.
\<close>

datatype xreal = Finite real | PInfinity

fun xadd :: "xreal \<Rightarrow> xreal \<Rightarrow> xreal" where
  "xadd (Finite a) (Finite b) = Finite (a + b)"
| "xadd _ _ = PInfinity"

fun xless :: "xreal \<Rightarrow> xreal \<Rightarrow> bool" where
  "xless (Finite a) (Finite b) = (a < b)"
| "xless (Finite a) PInfinity = True"
| "xless PInfinity _ = False"

fun xle :: "xreal \<Rightarrow> xreal \<Rightarrow> bool" where
  "xle (Finite a) (Finite b) = (a \<le> b)"
| "xle _ PInfinity = True"
| "xle PInfinity (Finite b) = False"

definition std_min :: "xreal \<Rightarrow> xreal \<Rightarrow> xreal" where
  "std_min a b = (if xless b a then b else a)"

text \<open>
  \<^verbatim>\<open>distance / k\<close> for a count \<open>k\<close>; the source reaches it with \<open>k > 0\<close> whenever the
  distance is finite.
\<close>

fun xdiv :: "xreal \<Rightarrow> nat \<Rightarrow> xreal" where
  "xdiv (Finite a) k = Finite (a / real k)"
| "xdiv PInfinity k = PInfinity"

datatype DistanceMetric = EUCLIDEAN | MANHATTAN | COSINE

definition calculateDistance :: "real list \<Rightarrow> real list \<Rightarrow> DistanceMetric \<Rightarrow> xreal" where
  "calculateDistance vec1 vec2 metric =
     (if length vec1 \<noteq> length vec2 then PInfinity
      else
        (case metric of
           EUCLIDEAN \<Rightarrow>
             Finite (sqrt (fold (\<lambda>i distance.
                                   let diff = vec1 ! i - vec2 ! i in distance + diff * diff)
                                [0..<length vec1] 0))
         | MANHATTAN \<Rightarrow>
             Finite (fold (\<lambda>i distance. distance + \<bar>vec1 ! i - vec2 ! i\<bar>) [0..<length vec1] 0)
         | COSINE \<Rightarrow>
             (case fold (\<lambda>i (dot_product, norm1, norm2).
                          (dot_product + vec1 ! i * vec2 ! i,
                           norm1 + vec1 ! i * vec1 ! i,
                           norm2 + vec2 ! i * vec2 ! i))
                        [0..<length vec1] (0, 0, 0) of
                (dot_product, norm1, norm2) \<Rightarrow>
                  if norm1 = 0 \<or> norm2 = 0 then Finite 1
                  else Finite (1 - dot_product / (sqrt norm1 * sqrt norm2)))))"

text \<open>\<^verbatim>\<open>struct DTWResult\<close>; the field names carry a prefix, record fields being global names.\<close>

record DTWResult =
  dtw_distance :: xreal
  dtw_path :: "(int \<times> int) list"
  dtw_cost_matrix :: "xreal list list"

text \<open>\<^verbatim>\<open>for (int j = a; j < m && cond(j); j++) body\<close> on a state, without failure.\<close>

function loop_up :: "nat \<Rightarrow> nat \<Rightarrow> (nat \<Rightarrow> bool) \<Rightarrow> (nat \<Rightarrow> 's \<Rightarrow> 's) \<Rightarrow> 's \<Rightarrow> 's" where
  "loop_up j m cond body st =
     (if j < m \<and> cond j then loop_up (j + 1) m cond body (body j st) else st)"
  by pat_completeness auto
termination
  by (relation "measure (\<lambda>(j, m, cond, body, st). m - j)") auto

text \<open>
  Signed 32-bit addition as the wasm32 target of the file performs it. Only
  \<^verbatim>\<open>i + band_width + 1\<close> can leave the range: \<open>band_width\<close> is any \<^verbatim>\<open>int\<close> of the caller.
\<close>

definition wrap_int32 :: "int \<Rightarrow> int" where
  "wrap_int32 x = (x + 2 ^ 31) mod 2 ^ 32 - 2 ^ 31"

definition local_distance_matrix ::
  "real list list \<Rightarrow> real list list \<Rightarrow> int \<Rightarrow> DistanceMetric \<Rightarrow> xreal list list" where
  "local_distance_matrix sequence1 sequence2 band_width metric =
     map (\<lambda>i. map (\<lambda>j. if \<bar>int i - int j\<bar> \<le> band_width
                        then calculateDistance (sequence1 ! i) (sequence2 ! j) metric
                        else PInfinity)
                  [0..<length sequence2])
         [0..<length sequence1]"

definition fill_first_row :: "nat \<Rightarrow> int \<Rightarrow> xreal list list \<Rightarrow> xreal list list \<Rightarrow> xreal list list" where
  "fill_first_row m band_width local_distances cost_matrix =
     loop_up 1 m (\<lambda>j. int j \<le> band_width)
       (\<lambda>j cm. cm[0 := (cm ! 0)[j := xadd (cm ! 0 ! (j - 1)) (local_distances ! 0 ! j)]])
       cost_matrix"

definition fill_first_column :: "nat \<Rightarrow> int \<Rightarrow> xreal list list \<Rightarrow> xreal list list \<Rightarrow> xreal list list" where
  "fill_first_column n band_width local_distances cost_matrix =
     loop_up 1 n (\<lambda>i. int i \<le> band_width)
       (\<lambda>i cm. cm[i := (cm ! i)[0 := xadd (cm ! (i - 1) ! 0) (local_distances ! i ! 0)]])
       cost_matrix"

text \<open>The body of the inner loop of lines 121 to 141, \<^verbatim>\<open>continue\<close> included.\<close>

definition fill_cell :: "xreal list list \<Rightarrow> nat \<Rightarrow> nat \<Rightarrow> xreal list list \<Rightarrow> xreal list list" where
  "fill_cell local_distances i j cm =
     (if local_distances ! i ! j = PInfinity then cm
      else
        let cost = local_distances ! i ! j;
            min_prev = PInfinity;
            min_prev = (if i > 0 \<and> j > 0 then std_min min_prev (cm ! (i - 1) ! (j - 1)) else min_prev);
            min_prev = (if i > 0 then std_min min_prev (cm ! (i - 1) ! j) else min_prev);
            min_prev = (if j > 0 then std_min min_prev (cm ! i ! (j - 1)) else min_prev)
        in cm[i := (cm ! i)[j := xadd cost min_prev]])"

definition j_start :: "int \<Rightarrow> nat \<Rightarrow> int" where
  "j_start band_width i = max 1 (int i - band_width)"

definition j_end :: "nat \<Rightarrow> int \<Rightarrow> nat \<Rightarrow> int" where
  "j_end m band_width i = min (int m) (wrap_int32 (int i + band_width + 1))"

definition fill_row :: "nat \<Rightarrow> int \<Rightarrow> xreal list list \<Rightarrow> nat \<Rightarrow> xreal list list \<Rightarrow> xreal list list" where
  "fill_row m band_width local_distances i cm =
     loop_up (nat (j_start band_width i)) (nat (j_end m band_width i)) (\<lambda>j. True)
       (fill_cell local_distances i) cm"

definition fill_rest :: "nat \<Rightarrow> nat \<Rightarrow> int \<Rightarrow> xreal list list \<Rightarrow> xreal list list \<Rightarrow> xreal list list" where
  "fill_rest n m band_width local_distances cost_matrix =
     loop_up 1 n (\<lambda>i. True) (fill_row m band_width local_distances) cost_matrix"

text \<open>
  The cost matrix after lines 88 to 142, for non-empty sequences and the effective band
  width (the caller's, or \<open>max n m\<close> when the caller's is not positive).
\<close>

definition filled_cost_matrix ::
  "real list list \<Rightarrow> real list list \<Rightarrow> int \<Rightarrow> DistanceMetric \<Rightarrow> xreal list list" where
  "filled_cost_matrix sequence1 sequence2 band_width metric =
     (let n = length sequence1; m = length sequence2;
          cost_matrix = replicate n (replicate m PInfinity);
          local_distances = local_distance_matrix sequence1 sequence2 band_width metric;
          cost_matrix = cost_matrix[0 := (cost_matrix ! 0)[0 := local_distances ! 0 ! 0]];
          cost_matrix = fill_first_row m band_width local_distances cost_matrix;
          cost_matrix = fill_first_column n band_width local_distances cost_matrix
      in fill_rest n m band_width local_distances cost_matrix)"

text \<open>The \<^verbatim>\<open>while (i > 0 || j > 0)\<close> loop of the backtracking; \<open>path\<close> grows by \<^verbatim>\<open>push_back\<close>.\<close>

function backtrack :: "xreal list list \<Rightarrow> nat \<Rightarrow> nat \<Rightarrow> (int \<times> int) list \<Rightarrow> (int \<times> int) list" where
  "backtrack cm i j path =
     (if i > 0 \<or> j > 0 then
        (let path = path @ [(int i, int j)] in
         if i = 0 then backtrack cm i (j - 1) path
         else if j = 0 then backtrack cm (i - 1) j path
         else
           (let diag = cm ! (i - 1) ! (j - 1);
                up = cm ! (i - 1) ! j;
                left = cm ! i ! (j - 1)
            in if xle diag up \<and> xle diag left then backtrack cm (i - 1) (j - 1) path
               else if xle up left then backtrack cm (i - 1) j path
               else backtrack cm i (j - 1) path))
      else path)"
  by pat_completeness auto
termination
  by (relation "measure (\<lambda>(cm, i, j, path). i + j)") auto

definition effective_band_width :: "nat \<Rightarrow> nat \<Rightarrow> int \<Rightarrow> int" where
  "effective_band_width n m band_width = (if band_width \<le> 0 then int (max n m) else band_width)"

definition computeDTW ::
  "real list list \<Rightarrow> real list list \<Rightarrow> int \<Rightarrow> DistanceMetric \<Rightarrow> bool \<Rightarrow> DTWResult" where
  "computeDTW sequence1 sequence2 band_width metric return_path =
     (let n = length sequence1; m = length sequence2 in
      if n = 0 \<or> m = 0 then \<lparr>dtw_distance = PInfinity, dtw_path = [], dtw_cost_matrix = []\<rparr>
      else
        let band_width = effective_band_width n m band_width;
            cost_matrix = filled_cost_matrix sequence1 sequence2 band_width metric;
            result_distance = cost_matrix ! (n - 1) ! (m - 1)
        in \<lparr>dtw_distance = result_distance,
            dtw_path = (if return_path \<and> result_distance \<noteq> PInfinity
                    then rev (backtrack cost_matrix (n - 1) (m - 1) [] @ [(0, 0)])
                    else []),
            dtw_cost_matrix = cost_matrix\<rparr>)"

text \<open>The object \<^verbatim>\<open>dtw_align\<close> returns to JavaScript.\<close>

record AlignResult =
  align_distance :: xreal
  align_normalized_distance :: xreal
  align_path :: "(int \<times> int) list"

definition dtw_align :: "real list list \<Rightarrow> real list list \<Rightarrow> int \<Rightarrow> AlignResult" where
  "dtw_align seq1 seq2 band_width =
     (let result = computeDTW seq1 seq2 band_width EUCLIDEAN True in
      \<lparr>align_distance = dtw_distance result,
       align_normalized_distance = xdiv (dtw_distance result) (max (length seq1) (length seq2)),
       align_path = dtw_path result\<rparr>)"

section \<open>audio_processor.cpp\<close>

definition PI :: real where
  "PI = 3.14159265358979323846"

definition NUM_MEL_FILTERS :: int where
  "NUM_MEL_FILTERS = 26"

definition NUM_MFCC_COEFFS :: int where
  "NUM_MFCC_COEFFS = 13"

definition SAMPLE_RATE :: real where
  "SAMPLE_RATE = 44100"

definition PRE_EMPHASIS :: real where
  "PRE_EMPHASIS = 0.97"

text \<open>Division of \<^verbatim>\<open>int\<close>s truncates towards zero.\<close>

definition int_div :: "int \<Rightarrow> int \<Rightarrow> int" where
  "int_div a b = (if (a < 0) = (b < 0) then \<bar>a\<bar> div \<bar>b\<bar> else - (\<bar>a\<bar> div \<bar>b\<bar>))"

text \<open>
  \<^verbatim>\<open>static_cast<int>(x)\<close> for a \<^verbatim>\<open>double\<close> \<open>x\<close>: the fractional part is dropped, and the
  conversion is defined only when what remains is an \<^verbatim>\<open>int\<close> of 32 bits.
\<close>

definition cast_int :: "real \<Rightarrow> error + int" where
  "cast_int x =
     (let k = (if 0 \<le> x then \<lfloor>x\<rfloor> else \<lceil>x\<rceil>) in
      if - (2 ^ 31) \<le> k \<and> k < 2 ^ 31 then Inr k else Inl CastOverflow)"

text \<open>
  The parameter \<^verbatim>\<open>length\<close> is \<open>len\<close> here. For \<open>len = 1\<close> the quotient below is
  \<^verbatim>\<open>0.0 / 0\<close>, a NaN in the source; the reals have none, and nothing proved here depends
  on the values of the window.
\<close>

definition hamming_window :: "int \<Rightarrow> error + real list" where
  "hamming_window len =
     bindE (new_vector len 0) (\<lambda>window.
       for_up 0 len (\<lambda>i window.
         vec_put window i (0.54 - 0.46 * cos (2 * PI * real_of_int i / real_of_int (len - 1))))
       window)"

definition dft :: "real list \<Rightarrow> error + real list" where
  "dft signal =
     (let N = int (length signal) in
      bindE (new_vector (int_div N 2 + 1) 0) (\<lambda>magnitude.
        for_up 0 (int_div N 2 + 1) (\<lambda>k magnitude.
          bindE (for_up 0 N (\<lambda>n (re, im).
                   bindE (vec_at signal n) (\<lambda>x.
                     let angle = - 2 * PI * real_of_int k * real_of_int n / real_of_int N in
                     Inr (re + x * cos angle, im + x * sin angle))) (0, 0)) (\<lambda>(re, im).
            vec_put magnitude k (sqrt (re * re + im * im))))
        magnitude))"

definition hz_to_mel :: "real \<Rightarrow> real" where
  "hz_to_mel hz = 2595 * log 10 (1 + hz / 700)"

definition mel_to_hz :: "real \<Rightarrow> real" where
  "mel_to_hz mel = 700 * (10 powr (mel / 2595) - 1)"

definition create_mel_filterbank :: "int \<Rightarrow> real \<Rightarrow> error + real list list" where
  "create_mel_filterbank nfft sample_rate =
     (let nfilters = NUM_MEL_FILTERS in
      bindE (new_vector (int_div nfft 2 + 1) 0) (\<lambda>frow.
      bindE (new_vector nfilters frow) (\<lambda>filterbank.
        let low_freq_mel = hz_to_mel 0;
            high_freq_mel = hz_to_mel (sample_rate / 2)
        in
      bindE (new_vector (nfilters + 2) 0) (\<lambda>mel_points.
      bindE (for_up 0 (nfilters + 2) (\<lambda>i mel_points.
               vec_put mel_points i
                 (low_freq_mel + real_of_int i * (high_freq_mel - low_freq_mel)
                    / real_of_int (nfilters + 1))) mel_points) (\<lambda>mel_points.
      bindE (new_vector (nfilters + 2) 0) (\<lambda>bin_points.
      bindE (for_up 0 (nfilters + 2) (\<lambda>i bin_points.
               bindE (vec_at mel_points i) (\<lambda>mp.
                 vec_put bin_points i \<lfloor>real_of_int (nfft + 1) * mel_to_hz mp / sample_rate\<rfloor>))
               bin_points) (\<lambda>bin_points.
        for_up 1 (nfilters + 1) (\<lambda>m filterbank.
          bindE (vec_at bin_points (m - 1)) (\<lambda>f_m_minus.
          bindE (vec_at bin_points m) (\<lambda>f_m.
          bindE (vec_at bin_points (m + 1)) (\<lambda>f_m_plus.
          bindE (for_up f_m_minus f_m (\<lambda>k filterbank.
                   vec_put2 filterbank (m - 1) k
                     (real_of_int (k - f_m_minus) / real_of_int (f_m - f_m_minus))) filterbank)
            (\<lambda>filterbank.
              for_up f_m f_m_plus (\<lambda>k filterbank.
                vec_put2 filterbank (m - 1) k
                  (real_of_int (f_m_plus - k) / real_of_int (f_m_plus - f_m))) filterbank)))))
          filterbank)))))))"

definition dct :: "real list \<Rightarrow> int \<Rightarrow> error + real list" where
  "dct signal num_coeffs =
     (let N = int (length signal) in
      bindE (new_vector num_coeffs 0) (\<lambda>dct_coeffs.
        for_up 0 num_coeffs (\<lambda>k dct_coeffs.
          bindE (for_up 0 N (\<lambda>n sum.
                   bindE (vec_at signal n) (\<lambda>x.
                     Inr (sum + x * cos (PI * real_of_int k * real_of_int (2 * n + 1)
                                          / real_of_int (2 * N))))) 0) (\<lambda>sum.
            vec_put dct_coeffs k sum))
        dct_coeffs))"

text \<open>
  The pre-emphasis stage of \<^verbatim>\<open>extractMFCC\<close> (lines 117 to 120). For an empty frame
  \<^verbatim>\<open>frame.size() - 1\<close> becomes \<open>- 1\<close> as an \<^verbatim>\<open>int\<close> and the loop does not run.
\<close>

definition pre_emphasis :: "real list \<Rightarrow> error + real list" where
  "pre_emphasis frame =
     for_down (int (length frame) - 1) 1 (\<lambda>i frame.
       bindE (vec_at frame i) (\<lambda>x.
       bindE (vec_at frame (i - 1)) (\<lambda>prev.
         vec_put frame i (x - PRE_EMPHASIS * prev)))) frame"

text \<open>
  The windowing loop runs while \<^verbatim>\<open>i < frame_length && i < frame.size()\<close>, that is up to the
  smaller of the two bounds.
\<close>

definition apply_window :: "real list \<Rightarrow> real list \<Rightarrow> int \<Rightarrow> error + real list" where
  "apply_window frame window frame_length =
     for_up 0 (min frame_length (int (length frame))) (\<lambda>i frame.
       bindE (vec_at frame i) (\<lambda>x.
       bindE (vec_at window i) (\<lambda>w.
         vec_put frame i (x * w)))) frame"

text \<open>The accumulation over the mel filter bank (lines 133 to 140).\<close>

definition mel_accumulate :: "real list \<Rightarrow> real list list \<Rightarrow> error + real list" where
  "mel_accumulate spectrum filterbank =
     bindE (new_vector NUM_MEL_FILTERS 0) (\<lambda>mel_energies.
       for_up 0 NUM_MEL_FILTERS (\<lambda>i mel_energies.
         bindE (for_up 0 (int (length spectrum)) (\<lambda>j mel_energies.
                  bindE (vec_at mel_energies i) (\<lambda>e.
                  bindE (vec_at spectrum j) (\<lambda>sp.
                  bindE (vec_at2 filterbank i j) (\<lambda>f.
                    vec_put mel_energies i (e + sp * f))))) mel_energies) (\<lambda>mel_energies.
         bindE (vec_at mel_energies i) (\<lambda>e.
           vec_put mel_energies i (ln (e + 1 / 10 ^ 10)))))
       mel_energies)"

definition extractMFCC :: "real list \<Rightarrow> int \<Rightarrow> int \<Rightarrow> error + real list" where
  "extractMFCC audio_frame frame_length num_coeffs =
     bindE (pre_emphasis audio_frame) (\<lambda>frame.
     bindE (hamming_window frame_length) (\<lambda>window.
     bindE (apply_window frame window frame_length) (\<lambda>frame.
     bindE (dft frame) (\<lambda>spectrum.
     bindE (create_mel_filterbank frame_length SAMPLE_RATE) (\<lambda>filterbank.
     bindE (mel_accumulate spectrum filterbank) (\<lambda>mel_energies.
       dct mel_energies num_coeffs))))))"

text \<open>
  The autocorrelation at one lag (lines 171 to 174); \<^verbatim>\<open>audio_frame.size() - period\<close> is
  computed on \<^verbatim>\<open>size_t\<close> and the loop is entered only with \<open>0 \<le> period < size\<close>.
\<close>

definition autocorrelation :: "real list \<Rightarrow> int \<Rightarrow> error + real" where
  "autocorrelation audio_frame period =
     for_up 0 (int (length audio_frame) - period) (\<lambda>i autocorr.
       bindE (vec_at audio_frame i) (\<lambda>a.
       bindE (vec_at audio_frame (i + period)) (\<lambda>b.
         Inr (autocorr + a * b)))) 0"

text \<open>
  The loop over the lags (lines 170 to 180), its state \<open>(max_autocorr, best_period)\<close>.
  \<^verbatim>\<open>period < audio_frame.size()\<close> compares on \<^verbatim>\<open>size_t\<close>: a negative \<open>period\<close> converts to
  a value above every size, so the test holds only for \<open>0 \<le> period < size\<close>.
\<close>

function pitch_loop :: "real list \<Rightarrow> int \<Rightarrow> int \<Rightarrow> real \<times> int \<Rightarrow> error + (real \<times> int)" where
  "pitch_loop audio_frame period max_period st =
     (if period \<le> max_period \<and> 0 \<le> period \<and> period < int (length audio_frame)
      then (case autocorrelation audio_frame period of
              Inl e \<Rightarrow> Inl e
            | Inr autocorr \<Rightarrow>
                pitch_loop audio_frame (period + 1) max_period
                  (if autocorr > fst st then (autocorr, period) else st))
      else Inr st)"
  by pat_completeness auto
termination
  by (relation "measure (\<lambda>(audio_frame, period, max_period, st). nat (max_period + 1 - period))") auto

text \<open>
  The quotients \<^verbatim>\<open>sample_rate / max_freq\<close> and \<^verbatim>\<open>sample_rate / min_freq\<close> are rounded to a
  \<^verbatim>\<open>double\<close> and then truncated to the bounds of the lag loop, so the rounding decides which
  lags are visited: \<^verbatim>\<open>1.0 / 0.1\<close> is \<^verbatim>\<open>10.0\<close>, although the exact quotient of these two
  doubles lies below \<open>10\<close>. The division of doubles is therefore the parameter \<open>fdiv\<close> of
  \<open>calculatePitch\<close>: \<open>fdiv a b\<close> is the \<^verbatim>\<open>double\<close> that \<^verbatim>\<open>a / b\<close> evaluates to. What is proved
  of \<open>calculatePitch\<close> holds for every \<open>fdiv\<close>; the examples take \<open>fdiv\<close> to be the exact
  division at quotients that are doubles themselves, where the two agree.
\<close>

definition calculatePitch ::
  "(real \<Rightarrow> real \<Rightarrow> real) \<Rightarrow> real list \<Rightarrow> real \<Rightarrow> real \<Rightarrow> real \<Rightarrow> error + real" where
  "calculatePitch fdiv audio_frame sample_rate min_freq max_freq =
     bindE (cast_int (fdiv sample_rate max_freq)) (\<lambda>min_period.
     bindE (cast_int (fdiv sample_rate min_freq)) (\<lambda>max_period.
     bindE (pitch_loop audio_frame min_period max_period (0, 0)) (\<lambda>(max_autocorr, best_period).
       Inr (if best_period > 0 then fdiv sample_rate (real_of_int best_period) else 0))))"

text \<open>
  The words of the specification of \<^verbatim>\<open>calculatePitch\<close>, to compare the loop with: the
  autocorrelation \<open>R(\<tau>) = \<Sum>\<^sub>i x[i] * x[i + \<tau>]\<close> over the indices inside the frame, and the
  lags \<open>\<tau>\<close> in \<open>[\<lfloor>sr / maxHz\<rfloor>, \<lfloor>sr / minHz\<rfloor>]\<close> below the frame length, for the two
  quotients \<open>q_max = sr / maxHz\<close> and \<open>q_min = sr / minHz\<close>.
\<close>

definition spec_autocorrelation :: "real list \<Rightarrow> int \<Rightarrow> real" where
  "spec_autocorrelation x \<tau> = (\<Sum>i = 0..<length x - nat \<tau>. x ! i * x ! (i + nat \<tau>))"


section \<open>Example models\<close>

text \<open>
  Two models with one state and one symbol: \<open>tiny_hmm\<close> is \<^verbatim>\<open>HMM(1, 1)\<close> after
  \<^verbatim>\<open>setInitialProb(0, 1.0)\<close>, \<^verbatim>\<open>setTransitionProb(0, 0, 1.0)\<close> and
  \<^verbatim>\<open>setEmissionProb(0, 0, 1.0)\<close>; \<open>bare_hmm\<close> is \<^verbatim>\<open>HMM(1, 1)\<close> after
  \<^verbatim>\<open>setEmissionProb(0, 0, 1.0)\<close> alone.
\<close>

definition tiny_hmm :: HMM where
  "tiny_hmm = \<lparr>num_states = 1, num_observations = 1, transition_probs = [[0]],
               emission_probs = [[0]], initial_probs = [0]\<rparr>"

definition bare_hmm :: HMM where
  "bare_hmm = \<lparr>num_states = 1, num_observations = 1, transition_probs = [[LOG_ZERO]],
               emission_probs = [[0]], initial_probs = [LOG_ZERO]\<rparr>"

text \<open>
  The words of the specification of the DTW fill, to compare the matrix with: the minimum
  over those of the three predecessors \<open>(i - 1, j - 1)\<close>, \<open>(i - 1, j)\<close> and \<open>(i, j - 1)\<close>
  that lie inside the band \<open>\<bar>i - j\<bar> \<le> band_width\<close>, and \<open>+infinity\<close> when none does.
\<close>

definition band_min_prev :: "int \<Rightarrow> xreal list list \<Rightarrow> nat \<Rightarrow> nat \<Rightarrow> xreal" where
  "band_min_prev band_width cm i j =
     fold (\<lambda>(pi, pj) acc. if \<bar>int pi - int pj\<bar> \<le> band_width then std_min acc (cm ! pi ! pj) else acc)
       [(i - 1, j - 1), (i - 1, j), (i, j - 1)] PInfinity"

section \<open>Invariants of the loops\<close>


text \<open>A table of \<open>T\<close> columns with \<open>N\<close> entries each, as the fills of hmm.cpp allocate and keep it.\<close>

definition has_shape :: "nat \<Rightarrow> nat \<Rightarrow> 'a list list \<Rightarrow> bool" where
  "has_shape T N m = (length m = T \<and> list_all (\<lambda>row. length row = N) m)"

text \<open>
  The cells the inner loop of the DTW fill visits in row \<open>i\<close>, and the value the whole fill
  leaves in cell \<open>(i, j)\<close>: the source's recurrence, read off lines 104 to 141, as a function
  of the local distances.
\<close>

definition in_body_range :: "nat \<Rightarrow> int \<Rightarrow> nat \<Rightarrow> nat \<Rightarrow> bool" where
  "in_body_range m band_width i j = (j_start band_width i \<le> int j \<and> int j < j_end m band_width i)"

function dtw_cell :: "xreal list list \<Rightarrow> nat \<Rightarrow> int \<Rightarrow> nat \<Rightarrow> nat \<Rightarrow> xreal" where
  "dtw_cell ld m band_width i j =
     (if i = 0 \<and> j = 0 then ld ! 0 ! 0
      else if i = 0 then
        (if int j \<le> band_width then xadd (dtw_cell ld m band_width 0 (j - 1)) (ld ! 0 ! j)
         else PInfinity)
      else if j = 0 then
        (if int i \<le> band_width then xadd (dtw_cell ld m band_width (i - 1) 0) (ld ! i ! 0)
         else PInfinity)
      else if in_body_range m band_width i j \<and> ld ! i ! j \<noteq> PInfinity then
        xadd (ld ! i ! j)
          (std_min (std_min (std_min PInfinity (dtw_cell ld m band_width (i - 1) (j - 1)))
                            (dtw_cell ld m band_width (i - 1) j))
                   (dtw_cell ld m band_width i (j - 1)))
      else PInfinity)"
  by pat_completeness auto
termination
  by (relation "measure (\<lambda>(ld, m, band_width, i, j). i + j)") auto

text \<open>
  A stage of the DTW fill: an \<open>n\<close> by \<open>m\<close> matrix whose cells marked \<open>filled\<close> hold their value
  \<open>f i j\<close> and whose other cells still hold \<open>+infinity\<close>.
\<close>

definition cells_are ::
  "nat \<Rightarrow> nat \<Rightarrow> (nat \<Rightarrow> nat \<Rightarrow> bool) \<Rightarrow> (nat \<Rightarrow> nat \<Rightarrow> xreal) \<Rightarrow> xreal list list \<Rightarrow> bool" where
  "cells_are n m filled f cm =
     (has_shape n m cm \<and>
      (\<forall>i < n. \<forall>j < m. cm ! i ! j = (if filled i j then f i j else PInfinity)))"

section \<open>Properties\<close>

subsection \<open>Results, checked accesses and counting loops\<close>

lemma bindE_Inr [simp]: "bindE (Inr x) f = f x"
  by (simp add: bindE_def)

lemma bindE_Inl [simp]: "bindE (Inl e) f = Inl e"
  by (simp add: bindE_def)

lemma bindE_eq_Inr: "bindE m f = Inr y \<longleftrightarrow> (\<exists>x. m = Inr x \<and> f x = Inr y)"
  by (cases m) simp_all

lemma vec_at_eq_Inr: "vec_at xs i = Inr v \<longleftrightarrow> 0 \<le> i \<and> i < int (length xs) \<and> v = xs ! nat i"
  by (auto simp: vec_at_def)

lemma vec_put_eq_Inr:
  "vec_put xs i v = Inr ys \<longleftrightarrow> 0 \<le> i \<and> i < int (length xs) \<and> ys = xs[nat i := v]"
  by (auto simp: vec_put_def)

lemma vec_at_in_range: "0 \<le> i \<Longrightarrow> i < int (length xs) \<Longrightarrow> vec_at xs i = Inr (xs ! nat i)"
  by (simp add: vec_at_def)

lemma vec_put_in_range:
  "0 \<le> i \<Longrightarrow> i < int (length xs) \<Longrightarrow> vec_put xs i v = Inr (xs[nat i := v])"
  by (simp add: vec_put_def)

lemma vec_at2_eq_Inr:
  "vec_at2 m i j = Inr v \<longleftrightarrow>
     0 \<le> i \<and> i < int (length m) \<and> 0 \<le> j \<and> j < int (length (m ! nat i)) \<and> v = m ! nat i ! nat j"
  by (auto simp: vec_at2_def bindE_eq_Inr vec_at_eq_Inr)

lemma vec_put2_eq_Inr:
  "vec_put2 m i j v = Inr m' \<longleftrightarrow>
     0 \<le> i \<and> i < int (length m) \<and> 0 \<le> j \<and> j < int (length (m ! nat i)) \<and>
     m' = m[nat i := (m ! nat i)[nat j := v]]"
  by (auto simp: vec_put2_def bindE_eq_Inr vec_at_eq_Inr vec_put_eq_Inr)

declare for_up.simps [simp del] for_down.simps [simp del]

lemma for_up_total:
  assumes "I i st"
    and "\<And>k s. i \<le> k \<Longrightarrow> k < n \<Longrightarrow> I k s \<Longrightarrow> \<exists>s'. body k s = Inr s' \<and> I (k + 1) s'"
  shows "\<exists>st'. for_up i n body st = Inr st' \<and> I (max i n) st'"
  using assms
proof (induction i n body st rule: for_up.induct)
  case (1 i n body st)
  show ?case
  proof (cases "i < n")
    case True
    from "1.prems"(2)[of i st] True "1.prems"(1)
    obtain s' where s': "body i st = Inr s'" "I (i + 1) s'" by auto
    have "\<exists>st'. for_up (i + 1) n body s' = Inr st' \<and> I (max (i + 1) n) st'"
      using "1.IH"[OF True s'(1) s'(2)] "1.prems"(2) by force
    then show ?thesis
      using True s' by (subst for_up.simps) (auto simp: max_def)
  next
    case False
    then show ?thesis using "1.prems"(1) by (subst for_up.simps) (simp add: max_def)
  qed
qed

lemma for_up_partial:
  assumes "for_up i n body st = Inr st'"
    and "I i st"
    and "\<And>k s s'. i \<le> k \<Longrightarrow> k < n \<Longrightarrow> I k s \<Longrightarrow> body k s = Inr s' \<Longrightarrow> I (k + 1) s'"
  shows "I (max i n) st'"
  using assms
proof (induction i n body st rule: for_up.induct)
  case (1 i n body st)
  show ?case
  proof (cases "i < n")
    case True
    from "1.prems"(1) True obtain s' where s': "body i st = Inr s'" "for_up (i + 1) n body s' = Inr st'"
      by (subst (asm) for_up.simps) (auto split: sum.splits)
    have "I (i + 1) s'" using "1.prems"(3)[of i st s'] True "1.prems"(2) s'(1) by simp
    then have "I (max (i + 1) n) st'"
      using "1.IH"[OF True s'(1) s'(2)] "1.prems"(3) by force
    then show ?thesis using True by (simp add: max_def)
  next
    case False
    then show ?thesis using "1.prems"(1,2) by (subst (asm) for_up.simps) (simp add: max_def)
  qed
qed

lemma for_down_total:
  assumes "I i st"
    and "\<And>k s. lo \<le> k \<Longrightarrow> k \<le> i \<Longrightarrow> I k s \<Longrightarrow> \<exists>s'. body k s = Inr s' \<and> I (k - 1) s'"
  shows "\<exists>st'. for_down i lo body st = Inr st' \<and> I (min i (lo - 1)) st'"
  using assms
proof (induction i lo body st rule: for_down.induct)
  case (1 i lo body st)
  show ?case
  proof (cases "lo \<le> i")
    case True
    from "1.prems"(2)[of i st] True "1.prems"(1)
    obtain s' where s': "body i st = Inr s'" "I (i - 1) s'" by auto
    have "\<exists>st'. for_down (i - 1) lo body s' = Inr st' \<and> I (min (i - 1) (lo - 1)) st'"
      using "1.IH"[OF True s'(1) s'(2)] "1.prems"(2) by force
    moreover have "min (i - 1) (lo - 1) = min i (lo - 1)" using True by simp
    ultimately show ?thesis
      using True s' by (subst for_down.simps) auto
  next
    case False
    then show ?thesis using "1.prems"(1) by (subst for_down.simps) (simp add: min_def)
  qed
qed

lemma for_down_partial:
  assumes "for_down i lo body st = Inr st'"
    and "I i st"
    and "\<And>k s s'. lo \<le> k \<Longrightarrow> k \<le> i \<Longrightarrow> I k s \<Longrightarrow> body k s = Inr s' \<Longrightarrow> I (k - 1) s'"
  shows "I (min i (lo - 1)) st'"
  using assms
proof (induction i lo body st rule: for_down.induct)
  case (1 i lo body st)
  show ?case
  proof (cases "lo \<le> i")
    case True
    from "1.prems"(1) True obtain s' where s': "body i st = Inr s'" "for_down (i - 1) lo body s' = Inr st'"
      by (subst (asm) for_down.simps) (auto split: sum.splits)
    have "I (i - 1) s'" using "1.prems"(3)[of i st s'] True "1.prems"(2) s'(1) by simp
    then have "I (min (i - 1) (lo - 1)) st'"
      using "1.IH"[OF True s'(1) s'(2)] "1.prems"(3) by force
    moreover have "min (i - 1) (lo - 1) = min i (lo - 1)" using True by simp
    ultimately show ?thesis by simp
  next
    case False
    then show ?thesis using "1.prems"(1,2) by (subst (asm) for_down.simps) (simp add: min_def)
  qed
qed


subsection \<open>The log-sum-exp helper\<close>

lemma max_element_all_same: "\<forall>v \<in> set vs. v = c \<Longrightarrow> max_element c vs = c"
  by (induction vs) auto

lemma log_sum_exp_all_LOG_ZERO: "\<forall>v \<in> set vs. v = LOG_ZERO \<Longrightarrow> log_sum_exp vs = LOG_ZERO"
  by (cases vs) (auto simp: log_sum_exp_def max_element_all_same)

lemma log_sum_exp_single: "log_sum_exp [a] = a"
  by (simp add: log_sum_exp_def)

lemma log_sum_exp_pair: "a \<noteq> LOG_ZERO \<Longrightarrow> log_sum_exp [a, a] = a + ln 2"
  by (simp add: log_sum_exp_def)

text \<open>
  C7. \<open>log_sum_exp\<close> returns \<open>LOG_ZERO\<close> on an input all of whose elements are \<open>LOG_ZERO\<close>
  (the empty input included), returns the element of a one-element input, and returns
  \<open>a + ln 2\<close> on \<open>[a, a]\<close>. The last law is stated for every value other than the sentinel
  \<open>LOG_ZERO\<close>, the log-domain stand-in for probability zero: on \<open>[LOG_ZERO, LOG_ZERO]\<close> the
  first law applies and the function returns \<open>LOG_ZERO\<close>. With exact reals
  \<open>LOG_ZERO + ln 2\<close> differs from \<open>LOG_ZERO\<close>; in double precision the two are the same
  number, a fact about rounding that lies outside this development.
\<close>

theorem log_sum_exp_laws:
  "((\<forall>v \<in> set vs. v = LOG_ZERO) \<longrightarrow> log_sum_exp vs = LOG_ZERO) \<and>
   log_sum_exp [a] = a \<and>
   (a \<noteq> LOG_ZERO \<longrightarrow> log_sum_exp [a, a] = a + ln 2)"
  using log_sum_exp_all_LOG_ZERO[of vs] log_sum_exp_single[of a] log_sum_exp_pair[of a]
  by blast

theorem log_sum_exp_laws_witness:
  "log_sum_exp [LOG_ZERO, LOG_ZERO, LOG_ZERO] = LOG_ZERO \<and>
   log_sum_exp [- 3] = - 3 \<and>
   log_sum_exp [- 3, - 3] = - 3 + ln 2"
  using log_sum_exp_laws[of "[LOG_ZERO, LOG_ZERO, LOG_ZERO]" "- 3"]
  by (simp add: LOG_ZERO_def)

subsection \<open>The HMM constructor and setters\<close>

lemma new_vector_eq_Inr: "new_vector n v = Inr xs \<longleftrightarrow> 0 \<le> n \<and> xs = replicate (nat n) v"
  by (auto simp: new_vector_def)

lemma new_HMM_wf:
  assumes "0 \<le> states" and "0 \<le> observations"
  shows "\<exists>h. new_HMM states observations = Inr h \<and> wf_hmm h \<and>
             num_states h = states \<and> num_observations h = observations"
  using assms by (simp add: new_HMM_def new_vector_def wf_hmm_def list_all_iff)

lemma new_HMM_negative:
  "states < 0 \<or> observations < 0 \<Longrightarrow> new_HMM states observations = Inl LengthError"
  by (auto simp: new_HMM_def new_vector_def)

text \<open>What the guards of the setters do catch: a probability that is not positive, an index at or above the size.\<close>

lemma setTransitionProb_ignored:
  "prob \<le> 0 \<or> num_states h \<le> from_state \<or> num_states h \<le> to_state \<Longrightarrow>
   setTransitionProb h from_state to_state prob = Inr h"
  by (auto simp: setTransitionProb_def)

lemma setEmissionProb_ignored:
  "prob \<le> 0 \<or> num_states h \<le> state \<or> num_observations h \<le> observation \<Longrightarrow>
   setEmissionProb h state observation prob = Inr h"
  by (auto simp: setEmissionProb_def)

lemma setInitialProb_ignored:
  "prob \<le> 0 \<or> num_states h \<le> state \<Longrightarrow> setInitialProb h state prob = Inr h"
  by (auto simp: setInitialProb_def)

text \<open>With indices inside the tables exactly the addressed entry becomes \<open>ln prob\<close>.\<close>

lemma setTransitionProb_stored:
  assumes "wf_hmm h" and "0 < prob"
    and "0 \<le> from_state" and "from_state < num_states h"
    and "0 \<le> to_state" and "to_state < num_states h"
  shows "setTransitionProb h from_state to_state prob =
           Inr (h\<lparr>transition_probs :=
                    (transition_probs h)[nat from_state :=
                       (transition_probs h ! nat from_state)[nat to_state := ln prob]]\<rparr>)"
proof -
  have "nat from_state < length (transition_probs h)"
    using assms by (simp add: wf_hmm_def)
  moreover from this have "length (transition_probs h ! nat from_state) = nat (num_states h)"
    using assms(1) by (simp add: wf_hmm_def list_all_length)
  ultimately show ?thesis
    using assms by (simp add: setTransitionProb_def vec_put2_def vec_at_def vec_put_def)
qed

lemma setEmissionProb_stored:
  assumes "wf_hmm h" and "0 < prob"
    and "0 \<le> state" and "state < num_states h"
    and "0 \<le> observation" and "observation < num_observations h"
  shows "setEmissionProb h state observation prob =
           Inr (h\<lparr>emission_probs :=
                    (emission_probs h)[nat state :=
                       (emission_probs h ! nat state)[nat observation := ln prob]]\<rparr>)"
proof -
  have "nat state < length (emission_probs h)"
    using assms by (simp add: wf_hmm_def)
  moreover from this have "length (emission_probs h ! nat state) = nat (num_observations h)"
    using assms(1) by (simp add: wf_hmm_def list_all_length)
  ultimately show ?thesis
    using assms by (simp add: setEmissionProb_def vec_put2_def vec_at_def vec_put_def)
qed

lemma setInitialProb_stored:
  assumes "wf_hmm h" and "0 < prob" and "0 \<le> state" and "state < num_states h"
  shows "setInitialProb h state prob =
           Inr (h\<lparr>initial_probs := (initial_probs h)[nat state := ln prob]\<rparr>)"
  using assms by (simp add: setInitialProb_def vec_put_def wf_hmm_def)

text \<open>
  What the guards miss: a negative index passes \<^verbatim>\<open>index < size\<close>, and the assignment
  then addresses memory before the table.
\<close>

lemma setTransitionProb_negative:
  assumes "0 < prob" and "from_state < num_states h" and "to_state < num_states h"
    and "from_state < 0"
  shows "setTransitionProb h from_state to_state prob = Inl OutOfBounds"
  using assms by (simp add: setTransitionProb_def vec_put2_def vec_at_def)

text \<open>
  C2. The setters are claimed to leave the three tables unchanged whenever the probability
  is not positive or an index is out of range, negative indices included. On a model with
  two states and two symbols each setter, called with an index of \<open>- 1\<close> and the
  probability \<open>1 / 2\<close>, writes outside its table instead.
\<close>

theorem setters_negative_index_out_of_bounds:
  "bindE (new_HMM 2 2) (\<lambda>h. setTransitionProb h (- 1) 0 (1 / 2)) = Inl OutOfBounds \<and>
   bindE (new_HMM 2 2) (\<lambda>h. setTransitionProb h 0 (- 1) (1 / 2)) = Inl OutOfBounds \<and>
   bindE (new_HMM 2 2) (\<lambda>h. setEmissionProb h (- 1) 0 (1 / 2)) = Inl OutOfBounds \<and>
   bindE (new_HMM 2 2) (\<lambda>h. setEmissionProb h 0 (- 1) (1 / 2)) = Inl OutOfBounds \<and>
   bindE (new_HMM 2 2) (\<lambda>h. setInitialProb h (- 1) (1 / 2)) = Inl OutOfBounds"
  by (simp add: new_HMM_def new_vector_def setTransitionProb_def setEmissionProb_def
      setInitialProb_def vec_put2_def vec_at_def vec_put_def)

subsection \<open>Pre-emphasis\<close>

text \<open>
  The loop runs from the last index down to \<open>1\<close>. Before the step at \<open>k\<close> the entries up to
  \<open>k\<close> still hold the input and the entries above \<open>k\<close> hold their final values, so the
  step at \<open>k\<close> reads the input's \<open>x ! k\<close> and \<open>x ! (k - 1)\<close>.
\<close>

lemma pre_emphasis_result:
  "\<exists>y. pre_emphasis x = Inr y \<and> length y = length x \<and>
       (\<forall>i < length x. y ! i = (if i = 0 then x ! 0 else x ! i - PRE_EMPHASIS * x ! (i - 1)))"
proof -
  define I where "I = (\<lambda>(k::int) (fr::real list). length fr = length x \<and>
      (\<forall>i < length x. fr ! i = (if int i \<le> k then x ! i else x ! i - PRE_EMPHASIS * x ! (i - 1))))"
  define body where "body = (\<lambda>i frame. bindE (vec_at frame i) (\<lambda>x.
       bindE (vec_at frame (i - 1)) (\<lambda>prev. vec_put frame i (x - PRE_EMPHASIS * prev))))"
  have init: "I (int (length x) - 1) x" by (simp add: I_def)
  have step: "\<exists>s'. body k s = Inr s' \<and> I (k - 1) s'"
    if "1 \<le> k" "k \<le> int (length x) - 1" "I k s" for k s
  proof -
    from that have len: "length s = length x" and
      vals: "\<And>i. i < length x \<Longrightarrow> s ! i = (if int i \<le> k then x ! i else x ! i - PRE_EMPHASIS * x ! (i - 1))"
      by (auto simp: I_def)
    have k: "nat k < length x" "nat (k - 1) < length x" "nat (k - 1) = nat k - 1" using that by auto
    have sk: "s ! nat k = x ! nat k" "s ! nat (k - 1) = x ! (nat k - 1)"
      using vals[of "nat k"] vals[of "nat (k - 1)"] k that by auto
    have "(s[nat k := x ! nat k - PRE_EMPHASIS * x ! (nat k - 1)]) ! i =
            (if int i \<le> k - 1 then x ! i else x ! i - PRE_EMPHASIS * x ! (i - 1))"
      if i: "i < length x" for i
    proof (cases "i = nat k")
      case True
      then show ?thesis using len k \<open>1 \<le> k\<close> by simp
    next
      case False
      then have "(int i \<le> k - 1) = (int i \<le> k)" using \<open>1 \<le> k\<close> by auto
      then show ?thesis using False vals[OF i] by simp
    qed
    then have "I (k - 1) (s[nat k := x ! nat k - PRE_EMPHASIS * x ! (nat k - 1)])"
      using len by (simp add: I_def)
    then show ?thesis
      using that len k sk by (simp add: body_def vec_at_def vec_put_def)
  qed
  from for_down_total[where I = I and body = body and lo = 1, OF init step]
  obtain y where y: "for_down (int (length x) - 1) 1 body x = Inr y"
    "I (min (int (length x) - 1) 0) y"
    by auto
  have "pre_emphasis x = Inr y" using y(1) by (simp add: pre_emphasis_def body_def)
  moreover have "length y = length x" using y(2) by (simp add: I_def)
  moreover have "y ! i = (if i = 0 then x ! 0 else x ! i - PRE_EMPHASIS * x ! (i - 1))" if "i < length x" for i
    using y(2) that by (auto simp: I_def min_def split: if_splits)
  ultimately show ?thesis by blast
qed


text \<open>
  C6. For every input frame \<open>x\<close> the pre-emphasis stage of \<open>extractMFCC\<close> makes no access
  outside the frame and produces \<open>y\<close> of the same length with \<open>y ! 0 = x ! 0\<close> and
  \<open>y ! i = x ! i - 0.97 * x ! (i - 1)\<close> for \<open>1 \<le> i < length x\<close>: every update reads the
  value \<open>x ! (i - 1)\<close> of the input, not an updated one.
\<close>

theorem pre_emphasis_reads_original:
  "\<exists>y. pre_emphasis x = Inr y \<and> length y = length x \<and>
       (x \<noteq> [] \<longrightarrow> y ! 0 = x ! 0) \<and>
       (\<forall>i. 1 \<le> i \<and> i < length x \<longrightarrow> y ! i = x ! i - 0.97 * x ! (i - 1))"
proof -
  from pre_emphasis_result[of x] obtain y where y: "pre_emphasis x = Inr y" "length y = length x"
    "\<And>i. i < length x \<Longrightarrow> y ! i = (if i = 0 then x ! 0 else x ! i - PRE_EMPHASIS * x ! (i - 1))"
    by blast
  have "y ! 0 = x ! 0" if "x \<noteq> []" using y(3)[of 0] that by simp
  moreover have "y ! i = x ! i - 0.97 * x ! (i - 1)" if "1 \<le> i \<and> i < length x" for i
    using y(3)[of i] that by (simp add: PRE_EMPHASIS_def)
  ultimately show ?thesis using y(1,2) by blast
qed

theorem pre_emphasis_reads_original_witness:
  "pre_emphasis [1, 2, 4] = Inr [1, 2 - 0.97 * 1, 4 - 0.97 * 2]"
proof -
  from pre_emphasis_reads_original[of "[1, 2, 4]"] obtain y where
    y: "pre_emphasis [1, 2, 4] = Inr y" "length y = 3" "y ! 0 = 1"
      "\<And>i. 1 \<le> i \<and> i < 3 \<Longrightarrow> y ! i = [1, 2, 4] ! i - 0.97 * [1, 2, 4] ! (i - 1)"
    by auto
  have "y ! Suc 0 = 2 - 0.97 * 1" "y ! Suc (Suc 0) = 4 - 0.97 * 2"
    using y(4)[of "Suc 0"] y(4)[of "Suc (Suc 0)"] by simp_all
  then have "y = [1, 2 - 0.97 * 1, 4 - 0.97 * 2]"
    using y(2,3) by (auto simp: list_eq_iff_nth_eq less_Suc_eq numeral_3_eq_3)
  then show ?thesis using y(1) by simp
qed

subsection \<open>DTW with an unreachable corner\<close>

declare loop_up.simps [simp del] backtrack.simps [simp del]

lemma band_cuts_corner:
  "dtw_cost_matrix (computeDTW [[0]] [[0], [0], [0]] 1 EUCLIDEAN True) =
     [[Finite 0, Finite 0, PInfinity]]"
  by (simp add: computeDTW_def filled_cost_matrix_def effective_band_width_def
      local_distance_matrix_def calculateDistance_def fill_first_row_def fill_first_column_def
      fill_rest_def fill_row_def loop_up.simps upt_rec)

lemma mismatched_dimensions_corner:
  "dtw_cost_matrix (computeDTW [[0]] [[0, 0]] (- 1) EUCLIDEAN True) = [[PInfinity]]"
  by (simp add: computeDTW_def filled_cost_matrix_def effective_band_width_def
      local_distance_matrix_def calculateDistance_def fill_first_row_def fill_first_column_def
      fill_rest_def fill_row_def loop_up.simps upt_rec)

text \<open>
  C10. For non-empty sequences whose corner cost \<open>cost[n - 1][m - 1]\<close> is \<open>+infinity\<close>,
  \<open>dtw_align\<close> returns that distance (and normalised distance) together with an empty
  path. Below it is applied to one input whose band cuts the corner off and to one whose
  vectors differ in dimension.
\<close>

theorem dtw_align_infinite_corner:
  assumes "seq1 \<noteq> []" and "seq2 \<noteq> []"
    and "dtw_cost_matrix (computeDTW seq1 seq2 band_width EUCLIDEAN True)
           ! (length seq1 - 1) ! (length seq2 - 1) = PInfinity"
  shows "align_distance (dtw_align seq1 seq2 band_width) = PInfinity \<and>
         align_normalized_distance (dtw_align seq1 seq2 band_width) = PInfinity \<and>
         align_path (dtw_align seq1 seq2 band_width) = []"
  using assms by (simp add: dtw_align_def computeDTW_def Let_def)

theorem dtw_align_infinite_corner_witness:
  "dtw_align [[0]] [[0], [0], [0]] 1 =
     \<lparr>align_distance = PInfinity, align_normalized_distance = PInfinity, align_path = []\<rparr> \<and>
   dtw_align [[0]] [[0, 0]] (- 1) =
     \<lparr>align_distance = PInfinity, align_normalized_distance = PInfinity, align_path = []\<rparr>"
  using dtw_align_infinite_corner[of "[[0]]" "[[0], [0], [0]]" 1]
    dtw_align_infinite_corner[of "[[0]]" "[[0, 0]]" "- 1"]
    band_cuts_corner mismatched_dimensions_corner
  by (simp add: dtw_align_def)

subsection \<open>Pitch by autocorrelation\<close>


declare pitch_loop.simps [simp del]



lemma cast_int_floor:
  assumes "0 \<le> x" and "x < 2 ^ 31"
  shows "cast_int x = Inr \<lfloor>x\<rfloor>"
proof -
  have "0 \<le> \<lfloor>x\<rfloor>" using assms(1) by simp
  moreover have "\<lfloor>x\<rfloor> < 2 ^ 31" using assms(2) by (simp add: floor_less_iff)
  ultimately show ?thesis using assms(1) by (simp add: cast_int_def)
qed

lemma cast_int_overflow:
  assumes "2 ^ 31 \<le> x"
  shows "cast_int x = Inl CastOverflow"
proof -
  have "0 \<le> x" using assms by (rule order_trans[rotated]) simp
  moreover have "(2 :: int) ^ 31 \<le> \<lfloor>x\<rfloor>" using assms by (simp add: le_floor_iff)
  ultimately show ?thesis by (simp add: cast_int_def)
qed

text \<open>
  A quotient of \<open>2\<^sup>3\<^sup>1\<close> or more does not convert: \<open>calculatePitch\<close> has no defined result for
  it, whatever the frame.
\<close>

lemma calculatePitch_min_period_overflow:
  "2 ^ 31 \<le> fdiv sr max_hz \<Longrightarrow> calculatePitch fdiv x sr min_hz max_hz = Inl CastOverflow"
  by (simp add: calculatePitch_def cast_int_overflow)

lemma calculatePitch_max_period_overflow:
  assumes "0 \<le> fdiv sr max_hz" and "fdiv sr max_hz < 2 ^ 31" and "2 ^ 31 \<le> fdiv sr min_hz"
  shows "calculatePitch fdiv x sr min_hz max_hz = Inl CastOverflow"
  using assms by (simp add: calculatePitch_def cast_int_overflow cast_int_floor)


text \<open>
  The bounds are those of the rounded quotients. The double nearest to \<open>0.1\<close> is
  \<open>3602879701896397 / 2\<^sup>5\<^sup>5\<close>, and \<^verbatim>\<open>1.0 / 0.1\<close> evaluates to \<^verbatim>\<open>10.0\<close>: the loop starts at lag
  \<open>10\<close> and a frame of ten samples has no lag left, although the integer part of the exact
  quotient is \<open>9\<close> and lag \<open>9\<close> has a positive autocorrelation.
\<close>

lemma calculatePitch_rounded_quotient:
  assumes "fdiv 1 (3602879701896397 / 36028797018963968) = 10"
    and "0 \<le> fdiv 1 min_hz" and "fdiv 1 min_hz < 2 ^ 31"
  shows "calculatePitch fdiv [1, 0, 0, 0, 0, 0, 0, 0, 0, 1] 1 min_hz
           (3602879701896397 / 36028797018963968) = Inr 0"
    and "\<lfloor>1 / (3602879701896397 / 36028797018963968) :: real\<rfloor> = 9"
    and "spec_autocorrelation [1, 0, 0, 0, 0, 0, 0, 0, 0, 1] 9 = 1"
proof -
  have "cast_int (10 :: real) = Inr 10" by (simp add: cast_int_def)
  then show "calculatePitch fdiv [1, 0, 0, 0, 0, 0, 0, 0, 0, 1] 1 min_hz
           (3602879701896397 / 36028797018963968) = Inr 0"
    using assms by (simp add: calculatePitch_def cast_int_floor pitch_loop.simps)
  show "\<lfloor>1 / (3602879701896397 / 36028797018963968) :: real\<rfloor> = 9"
    by (simp add: floor_eq_iff)
  show "spec_autocorrelation [1, 0, 0, 0, 0, 0, 0, 0, 0, 1] 9 = 1"
    by (simp add: spec_autocorrelation_def eval_nat_numeral)
qed







subsection \<open>Tables of the HMM algorithms\<close>

lemma has_shape_replicate: "has_shape T N (replicate T (replicate N v))"
  by (simp add: has_shape_def list_all_iff)

lemma has_shape_row: "has_shape T N m \<Longrightarrow> r < T \<Longrightarrow> length (m ! r) = N"
  by (simp add: has_shape_def list_all_length)

lemma has_shape_update:
  "has_shape T N m \<Longrightarrow> length row = N \<Longrightarrow> has_shape T N (m[i := row])"
  using set_update_subset_insert[of m i row] by (auto simp: has_shape_def list_all_iff)

lemma vec_at2_shape:
  assumes "has_shape T N m" and "0 \<le> i" and "i < int T" and "0 \<le> j" and "j < int N"
  shows "vec_at2 m i j = Inr (m ! nat i ! nat j)"
proof -
  have "nat i < T" using assms by auto
  then have "length (m ! nat i) = N" using assms(1) by (rule has_shape_row[rotated])
  then show ?thesis
    using assms by (simp add: vec_at2_def vec_at_def has_shape_def)
qed

lemma vec_put2_shape:
  assumes "has_shape T N m" and "0 \<le> i" and "i < int T" and "0 \<le> j" and "j < int N"
  shows "\<exists>m'. vec_put2 m i j v = Inr m' \<and> has_shape T N m'"
proof -
  have i: "nat i < T" using assms by auto
  then have len: "length (m ! nat i) = N" using assms(1) by (rule has_shape_row[rotated])
  have "has_shape T N (m[nat i := (m ! nat i)[nat j := v]])"
    using assms(1) len by (simp add: has_shape_update)
  then show ?thesis
    using assms len by (simp add: vec_put2_def vec_at_def vec_put_def has_shape_def)
qed

lemma vec_put2_other_row:
  "vec_put2 m i j v = Inr m' \<Longrightarrow> r \<noteq> nat i \<Longrightarrow> m' ! r = m ! r"
  by (auto simp: vec_put2_eq_Inr)

lemma vec_put2_keeps_shape:
  assumes "vec_put2 m i j v = Inr m'" and "has_shape T N m"
  shows "has_shape T N m'"
proof -
  from assms(1) have m': "m' = m[nat i := (m ! nat i)[nat j := v]]" and i: "nat i < length m"
    by (auto simp: vec_put2_eq_Inr)
  have "length (m ! nat i) = N"
    using assms(2) i by (simp add: has_shape_def list_all_length)
  then show ?thesis using assms(2) m' by (simp add: has_shape_update)
qed

lemma wf_hmm_shapes:
  assumes "wf_hmm h"
  shows "has_shape (nat (num_states h)) (nat (num_states h)) (transition_probs h)"
    and "has_shape (nat (num_states h)) (nat (num_observations h)) (emission_probs h)"
    and "length (initial_probs h) = nat (num_states h)"
  using assms by (simp_all add: wf_hmm_def has_shape_def)

lemma wf_initial_at:
  "wf_hmm h \<Longrightarrow> 0 \<le> s \<Longrightarrow> s < num_states h \<Longrightarrow>
   vec_at (initial_probs h) s = Inr (initial_probs h ! nat s)"
  by (simp add: vec_at_def wf_hmm_def)

lemma wf_transition_at:
  "wf_hmm h \<Longrightarrow> 0 \<le> i \<Longrightarrow> i < num_states h \<Longrightarrow> 0 \<le> j \<Longrightarrow> j < num_states h \<Longrightarrow>
   vec_at2 (transition_probs h) i j = Inr (transition_probs h ! nat i ! nat j)"
  by (rule vec_at2_shape[OF wf_hmm_shapes(1)]) auto

lemma wf_emission_at:
  "wf_hmm h \<Longrightarrow> 0 \<le> s \<Longrightarrow> s < num_states h \<Longrightarrow> 0 \<le> symb \<Longrightarrow> symb < num_observations h \<Longrightarrow>
   vec_at2 (emission_probs h) s symb = Inr (emission_probs h ! nat s ! nat symb)"
  by (rule vec_at2_shape[OF wf_hmm_shapes(2)]) auto

text \<open>The first column.\<close>

lemma init_first_column_total:
  assumes "wf_hmm h" and "obs \<noteq> []" and "0 \<le> obs ! 0"
    and "has_shape T (nat (num_states h)) tbl" and "0 < T"
  shows "\<exists>tbl'. init_first_column h obs tbl = Inr tbl' \<and> has_shape T (nat (num_states h)) tbl'"
proof -
  define body where "body = (\<lambda>s table.
       bindE (vec_at obs 0) (\<lambda>sym.
         if sym < num_observations h
         then bindE (vec_at (initial_probs h) s) (\<lambda>ip.
              bindE (vec_at2 (emission_probs h) s sym) (\<lambda>ep.
                vec_put2 table 0 s (ip + ep)))
         else Inr table))"
  define I where "I = (\<lambda>(k::int) tbl. has_shape T (nat (num_states h)) (tbl :: real list list))"
  have step: "\<exists>s'. body k s = Inr s' \<and> I (k + 1) s'"
    if "0 \<le> k" "k < num_states h" "I k s" for k s
  proof (cases "obs ! 0 < num_observations h")
    case True
    from vec_put2_shape[of T "nat (num_states h)" s 0 k] that assms(5)
    obtain m' where "vec_put2 s 0 k (initial_probs h ! nat k + emission_probs h ! nat k ! nat (obs ! 0)) = Inr m'"
      "has_shape T (nat (num_states h)) m'"
      by (auto simp: I_def)
    then show ?thesis
      using True that assms by (simp add: body_def I_def vec_at_in_range wf_initial_at wf_emission_at)
  next
    case False
    then show ?thesis using that assms by (simp add: body_def I_def vec_at_in_range)
  qed
  from for_up_total[where I = I and body = body and i = 0 and n = "num_states h" and st = tbl, OF _ step]
  show ?thesis using assms(4) by (auto simp: I_def init_first_column_def body_def)
qed

lemma init_first_column_other_rows:
  assumes "init_first_column h obs tbl = Inr tbl'" and "r \<noteq> 0"
  shows "tbl' ! r = tbl ! r"
proof -
  define body where "body = (\<lambda>s table.
       bindE (vec_at obs 0) (\<lambda>sym.
         if sym < num_observations h
         then bindE (vec_at (initial_probs h) s) (\<lambda>ip.
              bindE (vec_at2 (emission_probs h) s sym) (\<lambda>ep.
                vec_put2 table 0 s (ip + ep)))
         else Inr table))"
  define I where "I = (\<lambda>(k::int) t. (t :: real list list) ! r = tbl ! r)"
  have step: "I (k + 1) s'" if "I k s" "body k s = Inr s'" for k s s'
    using that assms(2)
    by (auto simp: body_def I_def bindE_eq_Inr split: if_splits dest!: vec_put2_other_row[where r = r])
  have "for_up 0 (num_states h) body tbl = Inr tbl'"
    using assms(1) by (simp add: init_first_column_def body_def)
  from for_up_partial[where I = I, OF this _ step] show ?thesis by (simp add: I_def)
qed

lemma init_first_column_oov:
  assumes "init_first_column h obs tbl = Inr tbl'" and "obs \<noteq> []" and "num_observations h \<le> obs ! 0"
  shows "tbl' = tbl"
proof -
  define body where "body = (\<lambda>s table.
       bindE (vec_at obs 0) (\<lambda>sym.
         if sym < num_observations h
         then bindE (vec_at (initial_probs h) s) (\<lambda>ip.
              bindE (vec_at2 (emission_probs h) s sym) (\<lambda>ep.
                vec_put2 table 0 s (ip + ep)))
         else Inr table))"
  define I where "I = (\<lambda>(k::int) t. (t :: real list list) = tbl)"
  have step: "I (k + 1) s'" if "I k s" "body k s = Inr s'" for k s s'
    using that assms(2,3)
    by (auto simp: body_def I_def bindE_eq_Inr vec_at_eq_Inr split: if_splits)
  have "for_up 0 (num_states h) body tbl = Inr tbl'"
    using assms(1) by (simp add: init_first_column_def body_def)
  from for_up_partial[where I = I, OF this _ step] show ?thesis by (simp add: I_def)
qed

text \<open>One column of the Viterbi table.\<close>

lemma viterbi_best_prev_total:
  assumes "wf_hmm h" and "has_shape T (nat (num_states h)) tbl"
    and "1 \<le> t" and "t < int T" and "t < int (length obs)"
    and "0 \<le> obs ! nat t" and "obs ! nat t < num_observations h"
    and "0 \<le> s" and "s < num_states h"
  shows "\<exists>r. viterbi_best_prev h obs tbl t s = Inr r"
proof -
  define body where "body = (\<lambda>prev_s (max_prob :: real, best_prev_state :: int).
       bindE (vec_at2 tbl (t - 1) prev_s) (\<lambda>v.
       bindE (vec_at2 (transition_probs h) prev_s s) (\<lambda>a.
       bindE (vec_at obs t) (\<lambda>sym.
       bindE (vec_at2 (emission_probs h) s sym) (\<lambda>b.
         let prob = v + a + b in
         if prob > max_prob then Inr (prob, prev_s) else Inr (max_prob, best_prev_state))))))"
  have step: "\<exists>s'. body k st = Inr s' \<and> True" if "0 \<le> k" "k < num_states h" for k st
  proof -
    have "vec_at2 tbl (t - 1) k = Inr (tbl ! nat (t - 1) ! nat k)"
      using assms that by (intro vec_at2_shape[OF assms(2)]) auto
    then show ?thesis
      using assms that
      by (cases st) (simp add: body_def wf_transition_at wf_emission_at vec_at_in_range Let_def)
  qed
  from for_up_total[where I = "\<lambda>_ _. True" and body = body and i = 0 and n = "num_states h"
      and st = "(LOG_ZERO, - 1)", OF _ step]
  show ?thesis by (auto simp: viterbi_best_prev_def body_def)
qed

lemma viterbi_column_total:
  assumes "wf_hmm h" and "has_shape T (nat (num_states h)) tbl"
    and "has_shape T (nat (num_states h)) path"
    and "1 \<le> t" and "t < int T" and "t < int (length obs)"
    and "0 \<le> obs ! nat t" and "obs ! nat t < num_observations h"
  shows "\<exists>tbl' path'. viterbi_column h obs t (tbl, path) = Inr (tbl', path') \<and>
           has_shape T (nat (num_states h)) tbl' \<and> has_shape T (nat (num_states h)) path'"
proof -
  define body where "body = (\<lambda>s (viterbi_table, path).
       bindE (viterbi_best_prev h obs viterbi_table t s) (\<lambda>(max_prob, best_prev_state).
       bindE (vec_put2 viterbi_table t s max_prob) (\<lambda>viterbi_table'.
       bindE (vec_put2 path t s best_prev_state) (\<lambda>path'.
         Inr (viterbi_table', path')))))"
  define I where "I = (\<lambda>(k::int) (st :: real list list \<times> int list list).
     has_shape T (nat (num_states h)) (fst st) \<and> has_shape T (nat (num_states h)) (snd st))"
  have step: "\<exists>s'. body k st = Inr s' \<and> I (k + 1) s'"
    if "0 \<le> k" "k < num_states h" "I k st" for k st
  proof -
    obtain vt pt where st: "st = (vt, pt)" by (cases st)
    have sh: "has_shape T (nat (num_states h)) vt" "has_shape T (nat (num_states h)) pt"
      using that st by (simp_all add: I_def)
    from viterbi_best_prev_total[OF assms(1) sh(1) assms(4-8) that(1,2)]
    obtain mp bp where r: "viterbi_best_prev h obs vt t k = Inr (mp, bp)" by force
    from vec_put2_shape[OF sh(1), of t k mp] assms that
    obtain vt' where vt': "vec_put2 vt t k mp = Inr vt'" "has_shape T (nat (num_states h)) vt'"
      by auto
    from vec_put2_shape[OF sh(2), of t k bp] assms that
    obtain pt' where pt': "vec_put2 pt t k bp = Inr pt'" "has_shape T (nat (num_states h)) pt'"
      by auto
    show ?thesis using st r vt' pt' by (simp add: body_def I_def)
  qed
  from for_up_total[where I = I and body = body and i = 0 and n = "num_states h"
      and st = "(tbl, path)", OF _ step]
  show ?thesis using assms(2,3) by (auto simp: I_def viterbi_column_def body_def)
qed

lemma viterbi_column_other_rows:
  assumes "viterbi_column h obs t (tbl, path) = Inr (tbl', path')" and "r \<noteq> nat t"
  shows "tbl' ! r = tbl ! r \<and> path' ! r = path ! r"
proof -
  define body where "body = (\<lambda>s (viterbi_table, path).
       bindE (viterbi_best_prev h obs viterbi_table t s) (\<lambda>(max_prob, best_prev_state).
       bindE (vec_put2 viterbi_table t s max_prob) (\<lambda>viterbi_table'.
       bindE (vec_put2 path t s best_prev_state) (\<lambda>path'.
         Inr (viterbi_table', path')))))"
  define I where "I = (\<lambda>(k::int) (st :: real list list \<times> int list list).
     fst st ! r = tbl ! r \<and> snd st ! r = path ! r)"
  have step: "I (k + 1) s'" if "I k st" "body k st = Inr s'" for k st s'
  proof -
    obtain vt pt where st: "st = (vt, pt)" by (cases st)
    from that(2) obtain mp bp vt' pt' where
      "vec_put2 vt t k mp = Inr vt'" "vec_put2 pt t k bp = Inr pt'" "s' = (vt', pt')"
      by (auto simp: body_def st bindE_eq_Inr)
    then show ?thesis
      using that(1) assms(2) st vec_put2_other_row[of vt t k mp vt' r]
        vec_put2_other_row[of pt t k bp pt' r]
      by (simp add: I_def)
  qed
  have "for_up 0 (num_states h) body (tbl, path) = Inr (tbl', path')"
    using assms(1) by (simp add: viterbi_column_def body_def)
  from for_up_partial[where I = I, OF this _ step] show ?thesis by (simp add: I_def)
qed

text \<open>
  The Viterbi fill makes no access outside a table when no symbol is negative, and it
  does not touch the column of a symbol at or above \<open>num_observations\<close>.
\<close>

lemma viterbi_fill_total:
  assumes "wf_hmm h" and "obs \<noteq> []" and "\<forall>symb \<in> set obs. 0 \<le> symb"
  shows "\<exists>V psi. viterbi_fill h obs = Inr (V, psi) \<and>
           has_shape (length obs) (nat (num_states h)) V \<and>
           has_shape (length obs) (nat (num_states h)) psi"
proof -
  define T where "T = length obs"
  define N where "N = nat (num_states h)"
  define body where "body = (\<lambda>t (viterbi_table, path).
          bindE (vec_at obs t) (\<lambda>sym.
            if sym \<ge> num_observations h then Inr (viterbi_table, path)
            else viterbi_column h obs t (viterbi_table, path)))"
  define I where "I = (\<lambda>(k::int) (st :: real list list \<times> int list list).
     has_shape T N (fst st) \<and> has_shape T N (snd st))"
  have N: "0 \<le> num_states h" using assms(1) by (simp add: wf_hmm_def)
  have T: "0 < T" using assms(2) by (simp add: T_def)
  have "0 \<le> obs ! 0" using assms(2,3) by (cases obs) auto
  from init_first_column_total[OF assms(1,2) this has_shape_replicate T, of LOG_ZERO]
  obtain tbl1 where tbl1: "init_first_column h obs (replicate T (replicate N LOG_ZERO)) = Inr tbl1"
    "has_shape T N tbl1" by (auto simp: N_def)
  have step: "\<exists>s'. body k st = Inr s' \<and> I (k + 1) s'"
    if "1 \<le> k" "k < int T" "I k st" for k st
  proof -
    obtain vt pt where st: "st = (vt, pt)" by (cases st)
    have sh: "has_shape T N vt" "has_shape T N pt" using that st by (simp_all add: I_def)
    have k: "nat k < length obs" using that by (simp add: T_def)
    then have nn: "0 \<le> obs ! nat k" using assms(3) by simp
    have at: "vec_at obs k = Inr (obs ! nat k)" using that by (simp add: vec_at_in_range T_def)
    show ?thesis
    proof (cases "obs ! nat k \<ge> num_observations h")
      case True
      then show ?thesis using at that st by (simp add: body_def I_def)
    next
      case False
      from viterbi_column_total[OF assms(1) sh[unfolded N_def] that(1,2) _ nn] False that(2)
      obtain vt' pt' where "viterbi_column h obs k (vt, pt) = Inr (vt', pt')"
        "has_shape T N vt'" "has_shape T N pt'"
        by (auto simp: T_def N_def)
      then show ?thesis using at False st by (simp add: body_def I_def)
    qed
  qed
  have "I 1 (tbl1, replicate T (replicate N (- 1)))"
    using tbl1(2) by (simp add: I_def has_shape_replicate)
  from for_up_total[where I = I and body = body and i = 1 and n = "int T", OF this step]
  obtain V psi where "for_up 1 (int T) body (tbl1, replicate T (replicate N (- 1))) = Inr (V, psi)"
    "has_shape T N V" "has_shape T N psi"
    by (auto simp: I_def)
  then show ?thesis
    using tbl1(1) N
    by (simp add: viterbi_fill_def new_vector_def body_def T_def[symmetric] N_def[symmetric])
qed

lemma viterbi_fill_oov_column:
  assumes "viterbi_fill h obs = Inr (V, psi)" and "t < length obs"
    and "num_observations h \<le> obs ! t"
  shows "V ! t = replicate (nat (num_states h)) LOG_ZERO \<and>
         psi ! t = replicate (nat (num_states h)) (- 1)"
proof -
  define T where "T = length obs"
  define N where "N = nat (num_states h)"
  define body where "body = (\<lambda>t (viterbi_table, path).
          bindE (vec_at obs t) (\<lambda>sym.
            if sym \<ge> num_observations h then Inr (viterbi_table, path)
            else viterbi_column h obs t (viterbi_table, path)))"
  define I where "I = (\<lambda>(k::int) (st :: real list list \<times> int list list).
     fst st ! t = replicate N LOG_ZERO \<and> snd st ! t = replicate N (- 1))"
  from assms(1) obtain tbl1 where
    tbl1: "init_first_column h obs (replicate T (replicate N LOG_ZERO)) = Inr tbl1"
    and run: "for_up 1 (int T) body (tbl1, replicate T (replicate N (- 1))) = Inr (V, psi)"
    by (auto simp: viterbi_fill_def Let_def bindE_eq_Inr new_vector_eq_Inr body_def T_def N_def)
  have "tbl1 ! t = replicate T (replicate N LOG_ZERO) ! t"
  proof (cases "t = 0")
    case True
    then show ?thesis using init_first_column_oov[OF tbl1] assms(2,3) by auto
  next
    case False
    then show ?thesis using init_first_column_other_rows[OF tbl1] by simp
  qed
  then have init: "I 1 (tbl1, replicate T (replicate N (- 1)))"
    using assms(2) by (simp add: I_def T_def)
  have step: "I (k + 1) s'" if "1 \<le> k" "I k st" "body k st = Inr s'" for k st s'
  proof -
    obtain vt pt where st: "st = (vt, pt)" by (cases st)
    obtain vt' pt' where s': "s' = (vt', pt')" by (cases s')
    from that(3) have "s' = st \<or>
        (obs ! nat k < num_observations h \<and> viterbi_column h obs k (vt, pt) = Inr (vt', pt'))"
      by (auto simp: body_def st s' bindE_eq_Inr vec_at_eq_Inr split: if_splits)
    then show ?thesis
    proof
      assume "s' = st"
      then show ?thesis using that(2) by (simp add: I_def)
    next
      assume a: "obs ! nat k < num_observations h \<and> viterbi_column h obs k (vt, pt) = Inr (vt', pt')"
      then have "t \<noteq> nat k" using assms(3) by auto
      from viterbi_column_other_rows[OF conjunct2[OF a] this]
      show ?thesis using that(2) st s' by (simp add: I_def)
    qed
  qed
  from for_up_partial[where I = I, OF run init step] show ?thesis
    by (simp add: I_def N_def)
qed

text \<open>The forward pass.\<close>

lemma forward_column_total:
  assumes "wf_hmm h" and "has_shape T (nat (num_states h)) alpha"
    and "1 \<le> t" and "t < int T" and "t < int (length obs)"
    and "0 \<le> obs ! nat t" and "obs ! nat t < num_observations h"
  shows "\<exists>alpha'. forward_column h obs t alpha = Inr alpha' \<and>
           has_shape T (nat (num_states h)) alpha'"
proof -
  define inner where "inner = (\<lambda>(al :: real list list) s prev_s (log_probs :: real list).
                bindE (vec_at2 al (t - 1) prev_s) (\<lambda>v.
                bindE (vec_at2 (transition_probs h) prev_s s) (\<lambda>a.
                  Inr (log_probs @ [v + a]))))"
  define body where "body = (\<lambda>s al.
       bindE (for_up 0 (num_states h) (inner al s) []) (\<lambda>log_probs.
       bindE (vec_at obs t) (\<lambda>sym.
       bindE (vec_at2 (emission_probs h) s sym) (\<lambda>b.
         vec_put2 al t s (log_sum_exp log_probs + b)))))"
  define I where "I = (\<lambda>(k::int) (al :: real list list). has_shape T (nat (num_states h)) al)"
  have step: "\<exists>s'. body k al = Inr s' \<and> I (k + 1) s'"
    if "0 \<le> k" "k < num_states h" "I k al" for k al
  proof -
    have sh: "has_shape T (nat (num_states h)) al" using that by (simp add: I_def)
    have "\<exists>s'. inner al k p lp = Inr s' \<and> True" if "0 \<le> p" "p < num_states h" for p lp
    proof -
      have "vec_at2 al (t - 1) p = Inr (al ! nat (t - 1) ! nat p)"
        using assms that by (intro vec_at2_shape[OF sh]) auto
      then show ?thesis
        using assms(1) that \<open>0 \<le> k\<close> \<open>k < num_states h\<close>
        by (simp add: inner_def wf_transition_at)
    qed
    from for_up_total[where I = "\<lambda>_ _. True" and body = "inner al k" and i = 0
        and n = "num_states h" and st = "[]", OF _ this]
    obtain lps where lps: "for_up 0 (num_states h) (inner al k) [] = Inr lps" by auto
    from vec_put2_shape[OF sh, of t k "log_sum_exp lps + emission_probs h ! nat k ! nat (obs ! nat t)"]
      assms that
    obtain al' where "vec_put2 al t k (log_sum_exp lps + emission_probs h ! nat k ! nat (obs ! nat t)) = Inr al'"
      "has_shape T (nat (num_states h)) al'" by auto
    then show ?thesis
      using lps assms that by (simp add: body_def I_def vec_at_in_range wf_emission_at)
  qed
  from for_up_total[where I = I and body = body and i = 0 and n = "num_states h"
      and st = alpha, OF _ step]
  show ?thesis using assms(2) by (auto simp: I_def forward_column_def body_def inner_def)
qed

lemma forward_column_other_rows:
  assumes "forward_column h obs t alpha = Inr alpha'" and "r \<noteq> nat t"
  shows "alpha' ! r = alpha ! r"
proof -
  define body where "body = (\<lambda>s al.
       bindE (for_up 0 (num_states h) (\<lambda>prev_s log_probs.
                bindE (vec_at2 al (t - 1) prev_s) (\<lambda>v.
                bindE (vec_at2 (transition_probs h) prev_s s) (\<lambda>a.
                  Inr (log_probs @ [v + a])))) []) (\<lambda>log_probs.
       bindE (vec_at obs t) (\<lambda>sym.
       bindE (vec_at2 (emission_probs h) s sym) (\<lambda>b.
         vec_put2 al t s (log_sum_exp log_probs + b)))))"
  define I where "I = (\<lambda>(k::int) (al :: real list list). al ! r = alpha ! r)"
  have step: "I (k + 1) s'" if "I k al" "body k al = Inr s'" for k al s'
    using that assms(2)
    by (auto simp: body_def I_def bindE_eq_Inr dest!: vec_put2_other_row[where r = r])
  have "for_up 0 (num_states h) body alpha = Inr alpha'"
    using assms(1) by (simp add: forward_column_def body_def)
  from for_up_partial[where I = I, OF this _ step] show ?thesis by (simp add: I_def)
qed

lemma forward_fill_total:
  assumes "wf_hmm h" and "obs \<noteq> []" and "\<forall>symb \<in> set obs. 0 \<le> symb"
  shows "\<exists>alpha. forward_fill h obs = Inr alpha \<and>
           has_shape (length obs) (nat (num_states h)) alpha"
proof -
  define T where "T = length obs"
  define N where "N = nat (num_states h)"
  define body where "body = (\<lambda>t alpha.
          bindE (vec_at obs t) (\<lambda>sym.
            if sym \<ge> num_observations h then Inr alpha
            else forward_column h obs t alpha))"
  define I where "I = (\<lambda>(k::int) (al :: real list list). has_shape T N al)"
  have N: "0 \<le> num_states h" using assms(1) by (simp add: wf_hmm_def)
  have T: "0 < T" using assms(2) by (simp add: T_def)
  have "0 \<le> obs ! 0" using assms(2,3) by (cases obs) auto
  from init_first_column_total[OF assms(1,2) this has_shape_replicate T, of LOG_ZERO]
  obtain al1 where al1: "init_first_column h obs (replicate T (replicate N LOG_ZERO)) = Inr al1"
    "has_shape T N al1" by (auto simp: N_def)
  have step: "\<exists>s'. body k al = Inr s' \<and> I (k + 1) s'"
    if "1 \<le> k" "k < int T" "I k al" for k al
  proof -
    have sh: "has_shape T N al" using that by (simp add: I_def)
    have k: "nat k < length obs" using that by (simp add: T_def)
    then have nn: "0 \<le> obs ! nat k" using assms(3) by simp
    have at: "vec_at obs k = Inr (obs ! nat k)" using that by (simp add: vec_at_in_range T_def)
    show ?thesis
    proof (cases "obs ! nat k \<ge> num_observations h")
      case True
      then show ?thesis using at that by (simp add: body_def I_def)
    next
      case False
      from forward_column_total[OF assms(1) sh[unfolded N_def] that(1,2) _ nn] False that(2)
      obtain al' where "forward_column h obs k al = Inr al'" "has_shape T N al'"
        by (auto simp: T_def N_def)
      then show ?thesis using at False by (simp add: body_def I_def)
    qed
  qed
  have "I 1 al1" using al1(2) by (simp add: I_def)
  from for_up_total[where I = I and body = body and i = 1 and n = "int T", OF this step]
  obtain alpha where "for_up 1 (int T) body al1 = Inr alpha" "has_shape T N alpha"
    by (auto simp: I_def)
  then show ?thesis
    using al1(1) N
    by (simp add: forward_fill_def new_vector_def body_def T_def[symmetric] N_def[symmetric])
qed

lemma forward_fill_oov_column:
  assumes "forward_fill h obs = Inr alpha" and "t < length obs"
    and "num_observations h \<le> obs ! t"
  shows "alpha ! t = replicate (nat (num_states h)) LOG_ZERO"
proof -
  define T where "T = length obs"
  define N where "N = nat (num_states h)"
  define body where "body = (\<lambda>t alpha.
          bindE (vec_at obs t) (\<lambda>sym.
            if sym \<ge> num_observations h then Inr alpha
            else forward_column h obs t alpha))"
  define I where "I = (\<lambda>(k::int) (al :: real list list). al ! t = replicate N LOG_ZERO)"
  from assms(1) obtain al1 where
    al1: "init_first_column h obs (replicate T (replicate N LOG_ZERO)) = Inr al1"
    and run: "for_up 1 (int T) body al1 = Inr alpha"
    by (auto simp: forward_fill_def Let_def bindE_eq_Inr new_vector_eq_Inr body_def T_def N_def)
  have "al1 ! t = replicate T (replicate N LOG_ZERO) ! t"
  proof (cases "t = 0")
    case True
    then show ?thesis using init_first_column_oov[OF al1] assms(2,3) by auto
  next
    case False
    then show ?thesis using init_first_column_other_rows[OF al1] by simp
  qed
  then have init: "I 1 al1"
    using assms(2) by (simp add: I_def T_def)
  have step: "I (k + 1) s'" if "1 \<le> k" "I k al" "body k al = Inr s'" for k al s'
  proof -
    from that(3) have "s' = al \<or>
        (obs ! nat k < num_observations h \<and> forward_column h obs k al = Inr s')"
      by (auto simp: body_def bindE_eq_Inr vec_at_eq_Inr split: if_splits)
    then show ?thesis
    proof
      assume "s' = al"
      then show ?thesis using that(2) by (simp add: I_def)
    next
      assume a: "obs ! nat k < num_observations h \<and> forward_column h obs k al = Inr s'"
      then have "t \<noteq> nat k" using assms(3) by auto
      from forward_column_other_rows[OF conjunct2[OF a] this]
      show ?thesis using that(2) by (simp add: I_def)
    qed
  qed
  from for_up_partial[where I = I, OF run init step] show ?thesis
    by (simp add: I_def N_def)
qed

lemma forward_total:
  assumes "wf_hmm h" and "obs \<noteq> []" and "\<forall>symb \<in> set obs. 0 \<le> symb"
  shows "\<exists>r. forward h obs = Inr r"
proof -
  from forward_fill_total[OF assms] obtain alpha where
    alpha: "forward_fill h obs = Inr alpha" "has_shape (length obs) (nat (num_states h)) alpha"
    by blast
  define body where "body = (\<lambda>s (final_probs :: real list).
      bindE (vec_at2 alpha (int (length obs) - 1) s) (\<lambda>v. Inr (final_probs @ [v])))"
  have step: "\<exists>s'. body k fp = Inr s' \<and> True" if "0 \<le> k" "k < num_states h" for k fp
  proof -
    have "vec_at2 alpha (int (length obs) - 1) k = Inr (alpha ! nat (int (length obs) - 1) ! nat k)"
      using assms(2) that by (intro vec_at2_shape[OF alpha(2)]) auto
    then show ?thesis by (simp add: body_def)
  qed
  from for_up_total[where I = "\<lambda>_ _. True" and body = body and i = 0 and n = "num_states h"
      and st = "[]", OF _ step]
  obtain fps where "for_up 0 (num_states h) body [] = Inr fps" by auto
  then show ?thesis using alpha(1) assms(2) by (simp add: forward_def body_def)
qed


lemma forward_last_oov:
  assumes "forward h obs = Inr r" and "obs \<noteq> []"
    and "num_observations h \<le> obs ! (length obs - 1)"
  shows "r = LOG_ZERO"
proof -
  define body where "body = (\<lambda>alpha s (final_probs :: real list).
      bindE (vec_at2 alpha (int (length obs) - 1) s) (\<lambda>v. Inr (final_probs @ [v])))"
  from assms(1,2) have "bindE (forward_fill h obs) (\<lambda>alpha.
      bindE (for_up 0 (num_states h) (body alpha) []) (\<lambda>fps. Inr (log_sum_exp fps))) = Inr r"
    by (simp add: forward_def Let_def body_def)
  then obtain alpha where alpha: "forward_fill h obs = Inr alpha"
    and "bindE (for_up 0 (num_states h) (body alpha) []) (\<lambda>fps. Inr (log_sum_exp fps)) = Inr r"
    unfolding bindE_eq_Inr by blast
  then obtain fps where fps: "for_up 0 (num_states h) (body alpha) [] = Inr fps"
    and r: "r = log_sum_exp fps"
    unfolding bindE_eq_Inr by auto
  have col: "alpha ! (length obs - 1) = replicate (nat (num_states h)) LOG_ZERO"
    using forward_fill_oov_column[OF alpha _ assms(3)] assms(2) by simp
  define I where "I = (\<lambda>(k::int) (fp :: real list). \<forall>v \<in> set fp. v = LOG_ZERO)"
  have step: "I (k + 1) s'" if "I k fp" "body alpha k fp = Inr s'" for k fp s'
  proof -
    have n: "nat (int (length obs) - 1) = length obs - 1" by simp
    from that(2) obtain v where a: "vec_at2 alpha (int (length obs) - 1) k = Inr v"
      and s': "s' = fp @ [v]"
      unfolding body_def bindE_eq_Inr by auto
    from a have v: "0 \<le> k"
      "k < int (length (alpha ! (length obs - 1)))" "v = alpha ! (length obs - 1) ! nat k"
      unfolding vec_at2_eq_Inr n by simp_all
    have "length (alpha ! (length obs - 1)) = nat (num_states h)"
      unfolding col by simp
    with v(1,2) have "nat k < nat (num_states h)" by linarith
    then have "v = LOG_ZERO" unfolding v(3) col by simp
    then show ?thesis using that(1) s' by (simp add: I_def)
  qed
  have "I (max 0 (num_states h)) fps"
  proof (rule for_up_partial[where I = I, OF fps])
    show "I 0 []" by (simp add: I_def)
    show "I (k + 1) s'" if "I k fp" "body alpha k fp = Inr s'" for k fp s'
      using that by (rule step)
  qed
  then have "\<forall>v \<in> set fps. v = LOG_ZERO"
    by (simp add: I_def)
  then show ?thesis using r by (simp add: log_sum_exp_all_LOG_ZERO)
qed

text \<open>The backward pass.\<close>

lemma backward_column_total:
  assumes "wf_hmm h" and "has_shape T (nat (num_states h)) beta"
    and "0 \<le> t" and "t + 1 < int T" and "t + 1 < int (length obs)"
    and "0 \<le> obs ! nat (t + 1)" and "obs ! nat (t + 1) < num_observations h"
  shows "\<exists>beta'. backward_column h obs t beta = Inr beta' \<and>
           has_shape T (nat (num_states h)) beta'"
proof -
  define inner where "inner = (\<lambda>(be :: real list list) s next_s (log_probs :: real list).
                bindE (vec_at2 (transition_probs h) s next_s) (\<lambda>a.
                bindE (vec_at obs (t + 1)) (\<lambda>sym.
                bindE (vec_at2 (emission_probs h) next_s sym) (\<lambda>b.
                bindE (vec_at2 be (t + 1) next_s) (\<lambda>v.
                  Inr (log_probs @ [a + b + v]))))))"
  define body where "body = (\<lambda>s be.
       bindE (for_up 0 (num_states h) (inner be s) []) (\<lambda>log_probs.
         vec_put2 be t s (log_sum_exp log_probs)))"
  define I where "I = (\<lambda>(k::int) (be :: real list list). has_shape T (nat (num_states h)) be)"
  have step: "\<exists>s'. body k be = Inr s' \<and> I (k + 1) s'"
    if "0 \<le> k" "k < num_states h" "I k be" for k be
  proof -
    have sh: "has_shape T (nat (num_states h)) be" using that by (simp add: I_def)
    have "\<exists>s'. inner be k p lp = Inr s' \<and> True" if "0 \<le> p" "p < num_states h" for p lp
    proof -
      have "vec_at2 be (t + 1) p = Inr (be ! nat (t + 1) ! nat p)"
        using assms that by (intro vec_at2_shape[OF sh]) auto
      then show ?thesis
        using assms that \<open>0 \<le> k\<close> \<open>k < num_states h\<close>
        by (simp add: inner_def wf_transition_at wf_emission_at vec_at_in_range)
    qed
    from for_up_total[where I = "\<lambda>_ _. True" and body = "inner be k" and i = 0
        and n = "num_states h" and st = "[]", OF _ this]
    obtain lps where lps: "for_up 0 (num_states h) (inner be k) [] = Inr lps" by auto
    from vec_put2_shape[OF sh, of t k "log_sum_exp lps"] assms that
    obtain be' where "vec_put2 be t k (log_sum_exp lps) = Inr be'"
      "has_shape T (nat (num_states h)) be'" by auto
    then show ?thesis
      using lps by (simp add: body_def I_def)
  qed
  from for_up_total[where I = I and body = body and i = 0 and n = "num_states h"
      and st = beta, OF _ step]
  show ?thesis using assms(2) by (auto simp: I_def backward_column_def body_def inner_def)
qed

lemma backward_column_other_rows:
  assumes "backward_column h obs t beta = Inr beta'" and "r \<noteq> nat t"
  shows "beta' ! r = beta ! r"
proof -
  define body where "body = (\<lambda>s be.
       bindE (for_up 0 (num_states h) (\<lambda>next_s log_probs.
                bindE (vec_at2 (transition_probs h) s next_s) (\<lambda>a.
                bindE (vec_at obs (t + 1)) (\<lambda>sym.
                bindE (vec_at2 (emission_probs h) next_s sym) (\<lambda>b.
                bindE (vec_at2 be (t + 1) next_s) (\<lambda>v.
                  Inr (log_probs @ [a + b + v])))))) []) (\<lambda>log_probs.
         vec_put2 be t s (log_sum_exp log_probs)))"
  define I where "I = (\<lambda>(k::int) (be :: real list list). be ! r = beta ! r)"
  have step: "I (k + 1) s'" if "I k be" "body k be = Inr s'" for k be s'
    using that assms(2)
    by (auto simp: body_def I_def bindE_eq_Inr dest!: vec_put2_other_row[where r = r])
  have "for_up 0 (num_states h) body beta = Inr beta'"
    using assms(1) by (simp add: backward_column_def body_def)
  from for_up_partial[where I = I, OF this _ step] show ?thesis by (simp add: I_def)
qed

text \<open>The last column of \<open>beta\<close> is set to \<open>0\<close>, the other columns are not touched.\<close>

lemma backward_last_column_total:
  assumes "has_shape T N (beta :: real list list)" and "0 < T" and "0 \<le> n" and "n \<le> int N"
  shows "\<exists>beta'. for_up 0 n (\<lambda>s beta. vec_put2 beta (int T - 1) s 0) beta = Inr beta' \<and>
           has_shape T N beta'"
proof -
  define I where "I = (\<lambda>(k::int) (be :: real list list). has_shape T N be)"
  have step: "\<exists>s'. vec_put2 be (int T - 1) k 0 = Inr s' \<and> I (k + 1) s'"
    if "0 \<le> k" "k < n" "I k be" for k be
    using vec_put2_shape[of T N be "int T - 1" k 0] that assms by (auto simp: I_def)
  from for_up_total[where I = I and body = "\<lambda>s beta. vec_put2 beta (int T - 1) s 0"
      and i = 0 and n = n and st = beta, OF _ step]
  show ?thesis using assms(1) by (auto simp: I_def)
qed

lemma backward_last_column_other_rows:
  assumes "for_up 0 n (\<lambda>s beta. vec_put2 beta (int T - 1) s 0) (beta :: real list list) =
           Inr beta'"
    and "r \<noteq> T - 1"
  shows "beta' ! r = beta ! r"
proof -
  define I where "I = (\<lambda>(k::int) (be :: real list list). be ! r = beta ! r)"
  have "nat (int T - 1) = T - 1" by simp
  then have step: "I (k + 1) s'" if "I k be" "vec_put2 be (int T - 1) k 0 = Inr s'" for k be s'
    using that assms(2) vec_put2_other_row[of be "int T - 1" k 0 s' r] by (simp add: I_def)
  from for_up_partial[where I = I, OF assms(1) _ step] show ?thesis by (simp add: I_def)
qed

lemma backward_fill_total:
  assumes "wf_hmm h" and "obs \<noteq> []" and "\<forall>symb \<in> set obs. 0 \<le> symb"
  shows "\<exists>beta. backward_fill h obs = Inr beta \<and>
           has_shape (length obs) (nat (num_states h)) beta"
proof -
  define T where "T = length obs"
  define N where "N = nat (num_states h)"
  define body where "body = (\<lambda>t beta.
          bindE (vec_at obs (t + 1)) (\<lambda>sym.
            if sym \<ge> num_observations h then Inr beta
            else backward_column h obs t beta))"
  define I where "I = (\<lambda>(k::int) (be :: real list list). has_shape T N be)"
  have N: "0 \<le> num_states h" using assms(1) by (simp add: wf_hmm_def)
  have T: "0 < T" using assms(2) by (simp add: T_def)
  from backward_last_column_total[OF has_shape_replicate T N, of N LOG_ZERO]
  obtain be1 where be1: "for_up 0 (num_states h) (\<lambda>s beta. vec_put2 beta (int T - 1) s 0)
       (replicate T (replicate N LOG_ZERO)) = Inr be1" "has_shape T N be1"
    using N by (auto simp: N_def)
  have step: "\<exists>s'. body k be = Inr s' \<and> I (k - 1) s'"
    if "0 \<le> k" "k \<le> int T - 2" "I k be" for k be
  proof -
    have sh: "has_shape T N be" using that by (simp add: I_def)
    have k: "nat (k + 1) < length obs" using that by (simp add: T_def)
    then have nn: "0 \<le> obs ! nat (k + 1)" using assms(3) by simp
    have at: "vec_at obs (k + 1) = Inr (obs ! nat (k + 1))"
      using that by (simp add: vec_at_in_range T_def)
    show ?thesis
    proof (cases "obs ! nat (k + 1) \<ge> num_observations h")
      case True
      then show ?thesis using at that by (simp add: body_def I_def)
    next
      case False
      from backward_column_total[OF assms(1) sh[unfolded N_def] that(1) _ _ nn] False that(2)
      obtain be' where "backward_column h obs k be = Inr be'" "has_shape T N be'"
        by (auto simp: T_def N_def)
      then show ?thesis using at False by (simp add: body_def I_def)
    qed
  qed
  have "I (int T - 2) be1" using be1(2) by (simp add: I_def)
  from for_down_total[where I = I and body = body and i = "int T - 2" and lo = 0, OF this step]
  obtain beta where "for_down (int T - 2) 0 body be1 = Inr beta" "has_shape T N beta"
    by (auto simp: I_def)
  then show ?thesis
    using be1(1) N
    by (simp add: backward_fill_def new_vector_def body_def T_def[symmetric] N_def[symmetric])
qed

lemma backward_fill_oov_column:
  assumes "backward_fill h obs = Inr beta" and "t + 1 < length obs"
    and "num_observations h \<le> obs ! (t + 1)"
  shows "beta ! t = replicate (nat (num_states h)) LOG_ZERO"
proof -
  define T where "T = length obs"
  define N where "N = nat (num_states h)"
  define body where "body = (\<lambda>t beta.
          bindE (vec_at obs (t + 1)) (\<lambda>sym.
            if sym \<ge> num_observations h then Inr beta
            else backward_column h obs t beta))"
  define I where "I = (\<lambda>(k::int) (be :: real list list). be ! t = replicate N LOG_ZERO)"
  from assms(1) obtain be1 where
    be1: "for_up 0 (num_states h) (\<lambda>s beta. vec_put2 beta (int T - 1) s 0)
       (replicate T (replicate N LOG_ZERO)) = Inr be1"
    and run: "for_down (int T - 2) 0 body be1 = Inr beta"
    by (auto simp: backward_fill_def Let_def bindE_eq_Inr new_vector_eq_Inr body_def T_def N_def)
  have "t \<noteq> T - 1" using assms(2) by (simp add: T_def)
  from backward_last_column_other_rows[OF be1 this]
  have init: "I (int T - 2) be1" using assms(2) by (simp add: I_def T_def)
  have step: "I (k - 1) s'" if "0 \<le> k" "I k be" "body k be = Inr s'" for k be s'
  proof -
    from that(3) have "s' = be \<or>
        (obs ! nat (k + 1) < num_observations h \<and> backward_column h obs k be = Inr s')"
      by (auto simp: body_def bindE_eq_Inr vec_at_eq_Inr split: if_splits)
    then show ?thesis
    proof
      assume "s' = be"
      then show ?thesis using that(2) by (simp add: I_def)
    next
      assume a: "obs ! nat (k + 1) < num_observations h \<and> backward_column h obs k be = Inr s'"
      have "nat (k + 1) = nat k + 1" using that(1) by simp
      then have "t \<noteq> nat k" using assms(3) a by auto
      from backward_column_other_rows[OF conjunct2[OF a] this]
      show ?thesis using that(2) by (simp add: I_def)
    qed
  qed
  from for_down_partial[where I = I, OF run init step] show ?thesis
    by (simp add: I_def N_def)
qed

lemma backward_total:
  assumes "wf_hmm h" and "obs \<noteq> []" and "\<forall>symb \<in> set obs. 0 \<le> symb"
  shows "\<exists>r. backward h obs = Inr r"
proof -
  from backward_fill_total[OF assms] obtain beta where
    beta: "backward_fill h obs = Inr beta" "has_shape (length obs) (nat (num_states h)) beta"
    by blast
  define body where "body = (\<lambda>s (initial_backward_probs :: real list).
                 bindE (vec_at obs 0) (\<lambda>sym.
                   if sym < num_observations h
                   then bindE (vec_at (initial_probs h) s) (\<lambda>ip.
                        bindE (vec_at2 (emission_probs h) s sym) (\<lambda>ep.
                        bindE (vec_at2 beta 0 s) (\<lambda>v.
                          Inr (initial_backward_probs @ [ip + ep + v]))))
                   else Inr initial_backward_probs))"
  have nn: "0 \<le> obs ! 0" using assms(2,3) by (cases obs) auto
  have step: "\<exists>s'. body k ps = Inr s' \<and> True" if "0 \<le> k" "k < num_states h" for k ps
  proof -
    have "vec_at2 beta 0 k = Inr (beta ! nat 0 ! nat k)"
      using assms(2) that by (intro vec_at2_shape[OF beta(2)]) auto
    then show ?thesis
      using assms(1,2) that nn
      by (simp add: body_def vec_at_in_range wf_initial_at wf_emission_at)
  qed
  from for_up_total[where I = "\<lambda>_ _. True" and body = body and i = 0 and n = "num_states h"
      and st = "[]", OF _ step]
  obtain ps where "for_up 0 (num_states h) body [] = Inr ps" by auto
  then show ?thesis using beta(1) assms(2) by (simp add: backward_def body_def)
qed

lemma backward_first_oov:
  assumes "backward h obs = Inr r" and "obs \<noteq> []" and "num_observations h \<le> obs ! 0"
  shows "r = LOG_ZERO"
proof -
  define body where "body = (\<lambda>beta s (initial_backward_probs :: real list).
                 bindE (vec_at obs 0) (\<lambda>sym.
                   if sym < num_observations h
                   then bindE (vec_at (initial_probs h) s) (\<lambda>ip.
                        bindE (vec_at2 (emission_probs h) s sym) (\<lambda>ep.
                        bindE (vec_at2 beta 0 s) (\<lambda>v.
                          Inr (initial_backward_probs @ [ip + ep + v]))))
                   else Inr initial_backward_probs))"
  from assms(1,2) obtain beta ps where
    ps: "for_up 0 (num_states h) (body beta) [] = Inr ps"
    and r: "r = log_sum_exp ps"
    by (auto simp: backward_def Let_def bindE_eq_Inr body_def)
  define I where "I = (\<lambda>(k::int) (p :: real list). p = [])"
  have step: "I (k + 1) s'" if "I k p" "body beta k p = Inr s'" for k p s'
    using that assms(2,3)
    by (auto simp: body_def I_def bindE_eq_Inr vec_at_eq_Inr split: if_splits)
  have "I (max 0 (num_states h)) ps"
  proof (rule for_up_partial[where I = I, OF ps])
    show "I 0 []" by (simp add: I_def)
    show "I (k + 1) s'" if "I k p" "body beta k p = Inr s'" for k p s'
      using that by (rule step)
  qed
  then have "ps = []" by (simp add: I_def)
  then show ?thesis using r by (simp add: log_sum_exp_def)
qed

text \<open>
  \<^verbatim>\<open>viterbi\<close> after a fill whose last column was skipped: no entry of that column exceeds
  \<open>LOG_ZERO\<close>, so the best final state stays \<open>0\<close>, and the backtracking starts from the
  backpointer \<open>- 1\<close> of that column.
\<close>

lemma viterbi_best_final_oov:
  assumes "has_shape T N V" and "0 < T" and "N = nat (num_states h)"
    and "V ! (T - 1) = replicate N LOG_ZERO"
  shows "viterbi_best_final h V (int T) = Inr (LOG_ZERO, 0)"
proof -
  define body where "body = (\<lambda>s (st :: real \<times> int).
       case st of (max_final_prob, best_final_state) \<Rightarrow>
       bindE (vec_at2 V (int T - 1) s) (\<lambda>v.
         if v > max_final_prob then Inr (v, s) else Inr (max_final_prob, best_final_state)))"
  define I where "I = (\<lambda>(k::int) (st :: real \<times> int). st = (LOG_ZERO, 0))"
  have step: "\<exists>s'. body k st = Inr s' \<and> I (k + 1) s'"
    if "0 \<le> k" "k < num_states h" "I k st" for k st
  proof -
    have "vec_at2 V (int T - 1) k = Inr (V ! nat (int T - 1) ! nat k)"
      using that assms by (intro vec_at2_shape[OF assms(1)]) auto
    moreover have "nat (int T - 1) = T - 1" by auto
    moreover have "nat k < N" using that assms(3) by auto
    ultimately have "vec_at2 V (int T - 1) k = Inr LOG_ZERO"
      using assms(4) by simp
    then show ?thesis using that(3) by (simp add: body_def I_def)
  qed
  have "I 0 (LOG_ZERO, 0)" by (simp add: I_def)
  from for_up_total[where I = I and body = body and n = "num_states h", OF this step]
  obtain st where "for_up 0 (num_states h) body (LOG_ZERO, 0) = Inr st" "st = (LOG_ZERO, 0)"
    by (auto simp: I_def)
  then show ?thesis
    by (simp add: viterbi_best_final_def body_def)
qed

lemma replicate_update_same: "(replicate n v)[i := v] = replicate n v"
  by (induction n arbitrary: i) (auto split: nat.splits)

lemma viterbi_backtrack_after_oov:
  assumes "has_shape T N psi" and "0 < T" and "psi ! (T - 1) = replicate N (- 1)"
  shows "viterbi_backtrack psi (int T) (replicate T 0) =
           (if T = 1 then Inr [0]
            else if T = 2 \<and> 0 < N then Inr [- 1, 0]
            else Inl OutOfBounds)"
proof -
  consider "T = 1" | "2 \<le> T" "N = 0" | "T = 2" "0 < N" | "3 \<le> T" "0 < N"
    using assms(2) by linarith
  then show ?thesis
  proof cases
    case 1
    then show ?thesis
      by (simp add: viterbi_backtrack_def for_down.simps)
  next
    case 2
    have len: "length psi = T" using assms(1) by (simp add: has_shape_def)
    have "vec_at2 psi (int T - 1) 0 = Inl OutOfBounds"
    proof -
      have "vec_at psi (int T - 1) = Inr (psi ! (T - 1))"
        using 2(1) len by (simp add: vec_at_def nat_diff_distrib')
      then show ?thesis using assms(3) 2(2) by (simp add: vec_at2_def vec_at_def)
    qed
    moreover have "vec_at (replicate T (0::int)) (int T - 1) = Inr 0"
      using 2(1) by (simp add: vec_at_def)
    ultimately show ?thesis using 2
      by (simp add: viterbi_backtrack_def for_down.simps[of "int T - 2"])
  next
    case 3
    have len: "length psi = 2" using assms(1) 3 by (simp add: has_shape_def)
    have "psi ! 1 = replicate N (- 1)" using assms(3) 3 by simp
    then have "vec_at2 psi 1 0 = Inr (- 1)"
      using len 3(2) by (simp add: vec_at2_def vec_at_def)
    then show ?thesis using 3
      by (simp add: viterbi_backtrack_def for_down.simps vec_at_def vec_put_def eval_nat_numeral)
  next
    case 4
    have len: "length psi = T" using assms(1) by (simp add: has_shape_def)
    define body where "body = (\<lambda>t best_path.
       bindE (vec_at best_path (t + 1)) (\<lambda>nxt.
       bindE (vec_at2 psi (t + 1) nxt) (\<lambda>p.
         vec_put best_path t p)))"
    define b1 where "b1 = (replicate T (0::int))[T - 2 := - 1]"
    have r1: "vec_at psi (int T - 1) = Inr (replicate N (- 1))"
      using 4(1) len assms(3) by (simp add: vec_at_def nat_diff_distrib')
    have s1: "body (int T - 2) (replicate T 0) = Inr b1"
    proof -
      have "vec_at (replicate T (0::int)) (int T - 2 + 1) = Inr 0"
        using 4(1) by (simp add: vec_at_def)
      moreover have "vec_at2 psi (int T - 2 + 1) 0 = Inr (- 1)"
        using r1 4(2) by (simp add: vec_at2_def vec_at_def)
      moreover have "nat (int T - 2) = T - 2" by auto
      ultimately show ?thesis using 4(1) by (simp add: body_def vec_put_def b1_def)
    qed
    have s2: "body (int T - 3) b1 = Inl OutOfBounds"
    proof -
      have "nat (int T - 3 + 1) = T - 2" using 4(1) by auto
      then have "vec_at b1 (int T - 3 + 1) = Inr (- 1)"
        using 4(1) by (simp add: vec_at_def b1_def)
      moreover have "vec_at2 psi (int T - 3 + 1) (- 1) = Inl OutOfBounds"
        by (simp add: vec_at2_def vec_at_def bindE_def split: sum.splits)
      ultimately show ?thesis by (simp add: body_def)
    qed
    have "for_down (int T - 2) 0 body (replicate T 0) = for_down (int T - 3) 0 body b1"
      using 4(1) s1 by (subst for_down.simps) simp
    also have "\<dots> = Inl OutOfBounds"
      using 4(1) s2 by (subst for_down.simps) simp
    finally show ?thesis using 4 by (simp add: viterbi_backtrack_def body_def)
  qed
qed

lemma viterbi_last_oov:
  assumes "wf_hmm h" and "obs \<noteq> []" and "\<forall>symb \<in> set obs. 0 \<le> symb"
    and "num_observations h \<le> obs ! (length obs - 1)"
  shows "viterbi h obs =
           (if length obs = 1 then Inr [0]
            else if length obs = 2 \<and> 0 < num_states h then Inr [- 1, 0]
            else Inl OutOfBounds)"
proof -
  define T where "T = length obs"
  define N where "N = nat (num_states h)"
  have T: "0 < T" using assms(2) by (simp add: T_def)
  from viterbi_fill_total[OF assms(1,2,3)] obtain V psi where
    fill: "viterbi_fill h obs = Inr (V, psi)"
    and V: "has_shape T N V" and psi: "has_shape T N psi"
    by (auto simp: T_def N_def)
  from viterbi_fill_oov_column[OF fill, of "T - 1"] assms(4) T
  have col: "V ! (T - 1) = replicate N LOG_ZERO" "psi ! (T - 1) = replicate N (- 1)"
    by (simp_all add: T_def N_def)
  have bf: "viterbi_best_final h V (int T) = Inr (LOG_ZERO, 0)"
    using viterbi_best_final_oov[OF V T N_def col(1)] .
  have put: "vec_put (replicate T (0::int)) (int T - 1) 0 = Inr (replicate T 0)"
    using T by (simp add: vec_put_def replicate_update_same)
  have "viterbi h obs = viterbi_backtrack psi (int T) (replicate T 0)"
    using T fill bf put by (simp add: viterbi_def T_def[symmetric] new_vector_def)
  also have "\<dots> = (if T = 1 then Inr [0]
            else if T = 2 \<and> 0 < N then Inr [- 1, 0]
            else Inl OutOfBounds)"
    by (rule viterbi_backtrack_after_oov[OF psi T col(2)])
  finally show ?thesis
    using assms(1) by (simp add: T_def N_def wf_hmm_def)
qed

subsection \<open>The example models\<close>

lemma tiny_hmm_built:
  "bindE (new_HMM 1 1) (\<lambda>h. bindE (setInitialProb h 0 1) (\<lambda>h.
     bindE (setTransitionProb h 0 0 1) (\<lambda>h. setEmissionProb h 0 0 1))) = Inr tiny_hmm"
  by (simp add: new_HMM_def new_vector_def setInitialProb_def setTransitionProb_def
      setEmissionProb_def vec_put_def vec_put2_def vec_at_def tiny_hmm_def)

lemma tiny_hmm_sel:
  "num_states tiny_hmm = 1" "num_observations tiny_hmm = 1" "transition_probs tiny_hmm = [[0]]"
  "emission_probs tiny_hmm = [[0]]" "initial_probs tiny_hmm = [0]"
  by (simp_all add: tiny_hmm_def)

lemmas hmm_eval = new_vector_def vec_put_def vec_put2_def vec_at_def vec_at2_def
  for_up.simps for_down.simps init_first_column_def viterbi_column_def
  viterbi_best_prev_def viterbi_best_final_def viterbi_backtrack_def
  LOG_ZERO_def eval_nat_numeral

lemma tiny_fill: "viterbi_fill tiny_hmm [0, 5] = Inr ([[0], [LOG_ZERO]], [[- 1], [- 1]])"
  by (simp add: viterbi_fill_def tiny_hmm_sel hmm_eval)

lemma tiny_viterbi: "viterbi tiny_hmm [0, 5] = Inr [- 1, 0]"
  by (simp add: viterbi_def tiny_fill tiny_hmm_sel hmm_eval)

lemma tiny_fill3:
  "viterbi_fill tiny_hmm [0, 0, 5] = Inr ([[0], [0], [LOG_ZERO]], [[- 1], [0], [- 1]])"
  by (simp add: viterbi_fill_def tiny_hmm_sel hmm_eval)

lemma tiny_viterbi3: "viterbi tiny_hmm [0, 0, 5] = Inl OutOfBounds"
  by (simp add: viterbi_def tiny_fill3 tiny_hmm_sel hmm_eval)

lemma bare_hmm_built:
  "bindE (new_HMM 1 1) (\<lambda>h. setEmissionProb h 0 0 1) = Inr bare_hmm"
  by (simp add: new_HMM_def new_vector_def setEmissionProb_def vec_put_def vec_put2_def
      vec_at_def bare_hmm_def)

lemma bare_hmm_sel:
  "num_states bare_hmm = 1" "num_observations bare_hmm = 1"
  "transition_probs bare_hmm = [[LOG_ZERO]]"
  "emission_probs bare_hmm = [[0]]" "initial_probs bare_hmm = [LOG_ZERO]"
  by (simp_all add: bare_hmm_def)

lemma wf_tiny_hmm: "wf_hmm tiny_hmm"
  by (simp add: wf_hmm_def tiny_hmm_sel)


subsection \<open>Out-of-vocabulary symbols\<close>

text \<open>
  C1, as the code has it. Take a model whose tables have the declared sizes and an
  observation sequence without negative symbols, and let the symbol at time \<open>t\<close> be at or
  above \<open>num_observations\<close>. Then the table fills of the three algorithms, and the whole of
  \<open>forward\<close> and \<open>backward\<close>, stay inside their tables; Viterbi leaves column \<open>t\<close> at
  \<open>LOG_ZERO\<close> and its backpointers at \<open>- 1\<close>, forward leaves column \<open>t\<close> at \<open>LOG_ZERO\<close>, and
  backward leaves column \<open>t - 1\<close> at \<open>LOG_ZERO\<close>, the column that the symbol at \<open>t\<close> feeds.
  The backward likelihood is \<open>LOG_ZERO\<close> when the symbol is the first one. When it is the
  last one the forward likelihood is \<open>LOG_ZERO\<close>, and the backtracking of \<open>viterbi\<close> starts
  from a backpointer \<open>- 1\<close>: the result is \<open>[0]\<close> for one observation, \<open>[- 1, 0]\<close> for two
  observations and at least one state, and otherwise a read of the backpointer table
  outside its bounds.
\<close>

theorem out_of_vocabulary_symbol:
  assumes "wf_hmm h" and "\<forall>symb \<in> set obs. 0 \<le> symb"
    and "t < length obs" and "num_observations h \<le> obs ! t"
  shows "\<exists>V psi alpha beta fw bw.
           viterbi_fill h obs = Inr (V, psi) \<and> forward_fill h obs = Inr alpha \<and>
           backward_fill h obs = Inr beta \<and> forward h obs = Inr fw \<and> backward h obs = Inr bw \<and>
           V ! t = replicate (nat (num_states h)) LOG_ZERO \<and>
           psi ! t = replicate (nat (num_states h)) (- 1) \<and>
           alpha ! t = replicate (nat (num_states h)) LOG_ZERO \<and>
           (0 < t \<longrightarrow> beta ! (t - 1) = replicate (nat (num_states h)) LOG_ZERO) \<and>
           (t = 0 \<longrightarrow> bw = LOG_ZERO) \<and>
           (t = length obs - 1 \<longrightarrow>
              fw = LOG_ZERO \<and>
              viterbi h obs =
                (if length obs = 1 then Inr [0]
                 else if length obs = 2 \<and> 0 < num_states h then Inr [- 1, 0]
                 else Inl OutOfBounds))"
proof -
  have ne: "obs \<noteq> []" using assms(3) by auto
  from viterbi_fill_total[OF assms(1) ne assms(2)] obtain V psi where
    v: "viterbi_fill h obs = Inr (V, psi)" by blast
  from forward_fill_total[OF assms(1) ne assms(2)] obtain alpha where
    a: "forward_fill h obs = Inr alpha" by blast
  from backward_fill_total[OF assms(1) ne assms(2)] obtain beta where
    b: "backward_fill h obs = Inr beta" by blast
  from forward_total[OF assms(1) ne assms(2)] obtain fw where fw: "forward h obs = Inr fw" ..
  from backward_total[OF assms(1) ne assms(2)] obtain bw where bw: "backward h obs = Inr bw" ..
  note viterbi_fill_oov_column[OF v assms(3,4)] forward_fill_oov_column[OF a assms(3,4)]
  moreover have "beta ! (t - 1) = replicate (nat (num_states h)) LOG_ZERO" if "0 < t"
    using backward_fill_oov_column[OF b, of "t - 1"] that assms(3,4) by simp
  moreover have "fw = LOG_ZERO" if "t = length obs - 1"
    using forward_last_oov[OF fw ne] that assms(4) by simp
  moreover have "bw = LOG_ZERO" if "t = 0"
    using backward_first_oov[OF bw ne] that assms(4) by simp
  moreover have "viterbi h obs =
                (if length obs = 1 then Inr [0]
                 else if length obs = 2 \<and> 0 < num_states h then Inr [- 1, 0]
                 else Inl OutOfBounds)" if "t = length obs - 1"
    using viterbi_last_oov[OF assms(1) ne assms(2)] that assms(4) by simp
  ultimately show ?thesis using v a b fw bw by blast
qed


theorem out_of_vocabulary_symbol_witness:
  "forward tiny_hmm [0, 5] = Inr LOG_ZERO \<and> backward tiny_hmm [5, 0] = Inr LOG_ZERO \<and>
   viterbi tiny_hmm [5] = Inr [0] \<and> viterbi tiny_hmm [0, 5] = Inr [- 1, 0] \<and>
   viterbi tiny_hmm [0, 0, 5] = Inl OutOfBounds"
  using out_of_vocabulary_symbol[OF wf_tiny_hmm, of "[0, 5]" 1]
    out_of_vocabulary_symbol[OF wf_tiny_hmm, of "[5, 0]" 0]
    out_of_vocabulary_symbol[OF wf_tiny_hmm, of "[5]" 0]
    out_of_vocabulary_symbol[OF wf_tiny_hmm, of "[0, 0, 5]" 2]
  by (auto simp: tiny_hmm_sel)


text \<open>
  C1 as stated fails in three ways. A negative symbol passes the guards, which test the
  upper bound only, and indexes the emission table out of bounds in all three
  algorithms. After a column of \<open>LOG_ZERO\<close> in the middle of the sequence the forward
  likelihood need not be \<open>LOG_ZERO\<close>: on \<open>bare_hmm\<close> and \<open>[5, 0]\<close> it is \<open>2 * LOG_ZERO\<close>. And
  the column backward skips is not the one of the symbol: on \<open>tiny_hmm\<close> and \<open>[5]\<close> its
  only column holds \<open>0\<close>.
\<close>

lemmas fb_eval = forward_def forward_fill_def forward_column_def backward_def
  backward_fill_def backward_column_def log_sum_exp_def

theorem out_of_vocabulary_symbol_counterexample:
  "viterbi tiny_hmm [- 1] = Inl OutOfBounds \<and>
   forward tiny_hmm [- 1] = Inl OutOfBounds \<and>
   backward tiny_hmm [- 1] = Inl OutOfBounds \<and>
   forward bare_hmm [5, 0] = Inr (2 * LOG_ZERO) \<and>
   backward_fill tiny_hmm [5] = Inr [[0]]"
proof -
  have "viterbi tiny_hmm [- 1] = Inl OutOfBounds"
    by (simp add: viterbi_def viterbi_fill_def tiny_hmm_sel hmm_eval)
  moreover have "forward tiny_hmm [- 1] = Inl OutOfBounds"
    by (simp add: tiny_hmm_sel fb_eval hmm_eval)
  moreover have "backward tiny_hmm [- 1] = Inl OutOfBounds"
    by (simp add: tiny_hmm_sel fb_eval hmm_eval)
  moreover have "forward bare_hmm [5, 0] = Inr (2 * LOG_ZERO)"
    by (simp add: bare_hmm_sel fb_eval hmm_eval)
  moreover have "backward_fill tiny_hmm [5] = Inr [[0]]"
    by (simp add: tiny_hmm_sel fb_eval hmm_eval)
  ultimately show ?thesis by simp
qed


subsection \<open>Backtracking over a missing predecessor\<close>

lemma viterbi_backtrack_links:
  assumes "viterbi_backtrack psi T bp0 = Inr bp" and "length bp0 = nat T"
  shows "length bp = nat T \<and>
         (\<forall>t. int t + 1 < T \<longrightarrow> vec_at2 psi (int t + 1) (bp ! (t + 1)) = Inr (bp ! t))"
proof -
  define body where "body = (\<lambda>t best_path.
       bindE (vec_at best_path (t + 1)) (\<lambda>nxt.
       bindE (vec_at2 psi (t + 1) nxt) (\<lambda>p.
         vec_put best_path t p)))"
  define I where "I = (\<lambda>(k::int) (b :: int list). length b = nat T \<and>
     (\<forall>t. k < int t \<and> int t + 1 < T \<longrightarrow> vec_at2 psi (int t + 1) (b ! (t + 1)) = Inr (b ! t)))"
  have init: "I (T - 2) bp0" using assms(2) by (auto simp: I_def)
  have step: "I (k - 1) b'" if "0 \<le> k" "k \<le> T - 2" "I k b" "body k b = Inr b'" for k b b'
  proof -
    from that(4) obtain p where p: "vec_at2 psi (k + 1) (b ! nat (k + 1)) = Inr p"
      and b': "b' = b[nat k := p]"
      by (auto simp: body_def bindE_eq_Inr vec_at_eq_Inr vec_put_eq_Inr)
    have len: "length b = nat T" using that(3) by (simp add: I_def)
    have links: "vec_at2 psi (int t + 1) (b' ! (t + 1)) = Inr (b' ! t)"
      if t: "k - 1 < int t" "int t + 1 < T" for t
    proof (cases "int t = k")
      case True
      then have "nat k = t" "nat (k + 1) = t + 1" by auto
      then show ?thesis using p b' len t True by simp
    next
      case False
      then have "k < int t" using t by simp
      then have "vec_at2 psi (int t + 1) (b ! (t + 1)) = Inr (b ! t)"
        using \<open>I k b\<close> t by (simp add: I_def)
      moreover have "nat k \<noteq> t" "nat k \<noteq> t + 1" using \<open>k < int t\<close> \<open>0 \<le> k\<close> by auto
      ultimately show ?thesis using b' by simp
    qed
    have "length b' = nat T" using len b' by simp
    with links show ?thesis unfolding I_def by blast
  qed
  have run: "for_down (T - 2) 0 body bp0 = Inr bp"
    using assms(1) by (simp add: viterbi_backtrack_def body_def)
  from for_down_partial[where I = I, OF run init step]
  have "I (min (T - 2) (- 1)) bp" by simp
  then show ?thesis by (auto simp: I_def min_def split: if_splits)
qed


text \<open>
  C3, as the code has it. Whenever \<open>viterbi\<close> returns a state sequence and the backpointer
  read for position \<open>t\<close>, that is \<open>path[t + 1][best_path[t + 1]]\<close>, is \<open>- 1\<close>, the sequence
  holds \<open>- 1\<close> at position \<open>t\<close>, and \<open>t\<close> is \<open>0\<close>: for a later position the next step of the
  backtracking would index \<open>path[t]\<close> at \<open>- 1\<close>.
\<close>

theorem viterbi_missing_predecessor:
  assumes "viterbi_fill h obs = Inr (V, psi)" and "viterbi h obs = Inr best_path"
    and "t + 1 < length obs"
    and "vec_at2 psi (int t + 1) (best_path ! (t + 1)) = Inr (- 1)"
  shows "best_path ! t = - 1 \<and> t = 0"
proof -
  from assms(1,2,3) obtain bp0 where
    bt: "viterbi_backtrack psi (int (length obs)) bp0 = Inr best_path"
    and len: "length bp0 = length obs"
    by (auto simp: viterbi_def Let_def bindE_eq_Inr new_vector_eq_Inr vec_put_eq_Inr
        split: if_splits prod.splits)
  from viterbi_backtrack_links[OF bt] len
  have links: "\<And>u. int u + 1 < int (length obs) \<Longrightarrow>
      vec_at2 psi (int u + 1) (best_path ! (u + 1)) = Inr (best_path ! u)"
    by simp
  from links[of t] assms(3,4) have m: "best_path ! t = - 1" by simp
  have "t = 0"
  proof (rule ccontr)
    assume "t \<noteq> 0"
    then obtain u where u: "t = u + 1" by (cases t) auto
    from links[of u] assms(3) u m have "vec_at2 psi (int u + 1) (- 1) = Inr (best_path ! u)"
      by simp
    then show False by (simp add: vec_at2_eq_Inr)
  qed
  with m show ?thesis by simp
qed


theorem viterbi_missing_predecessor_witness:
  "viterbi_fill tiny_hmm [0, 5] = Inr ([[0], [LOG_ZERO]], [[- 1], [- 1]]) \<and>
   viterbi tiny_hmm [0, 5] = Inr [- 1, 0] \<and>
   vec_at2 [[- 1], [- 1]] 1 ([- 1, 0] ! 1) = Inr (- 1 :: int) \<and>
   [- 1, 0 :: int] ! 0 = - 1"
  using viterbi_missing_predecessor[OF tiny_fill tiny_viterbi, of 0] tiny_fill tiny_viterbi
  by (simp add: vec_at2_def vec_at_def)


text \<open>
  C3 as stated fails: on \<open>tiny_hmm\<close> and \<open>[0, 5]\<close> the backpointer of the last column is
  \<open>- 1\<close> and the returned sequence is \<open>[- 1, 0]\<close>, with \<open>- 1\<close> and not the default \<open>0\<close> at the
  prior position; on \<open>[0, 0, 5]\<close> the backtracking reads \<open>path[1][- 1]\<close>.
\<close>

theorem viterbi_backpointer_counterexample:
  "viterbi_fill tiny_hmm [0, 5] = Inr ([[0], [LOG_ZERO]], [[- 1], [- 1]]) \<and>
   viterbi tiny_hmm [0, 5] = Inr [- 1, 0] \<and>
   viterbi tiny_hmm [0, 0, 5] = Inl OutOfBounds"
  using tiny_fill tiny_viterbi tiny_viterbi3 by simp

subsection \<open>The DTW cost matrix after the fill\<close>

text \<open>
  The loops of dtw.cpp as folds over their index ranges, and the fill stage by stage:
  after cell \<open>(0, 0)\<close>, after the first row, after the first column and after each body
  row, the cells visited so far hold \<open>dtw_cell\<close> and the others still hold \<open>+infinity\<close>.
\<close>

declare dtw_cell.simps [simp del]

lemma loop_up_True: "loop_up j m (\<lambda>k. True) body st = fold body [j..<m] st"
proof (induction j m "\<lambda>k::nat. True" body st rule: loop_up.induct)
  case (1 j m body st)
  show ?case
  proof (cases "j < m")
    case True
    then show ?thesis using 1 by (subst loop_up.simps) (simp add: upt_rec[of j m])
  next
    case False
    then show ?thesis by (subst loop_up.simps) simp
  qed
qed

lemma loop_up_band:
  "loop_up j m (\<lambda>k. int k \<le> bw) body st = fold body [j..<min m (nat (bw + 1))] st"
proof (induction j m "\<lambda>k::nat. int k \<le> bw" body st rule: loop_up.induct)
  case (1 j m body st)
  show ?case
  proof (cases "j < m \<and> int j \<le> bw")
    case True
    then have "j < min m (nat (bw + 1))" by auto
    then show ?thesis
      using 1 True by (subst loop_up.simps) (simp add: upt_rec[of j "min m (nat (bw + 1))"])
  next
    case False
    then have "\<not> j < min m (nat (bw + 1))" by auto
    then show ?thesis using False by (subst loop_up.simps) auto
  qed
qed

lemma fold_upt_invariant:
  assumes "a \<le> b" and "I a st"
    and "\<And>k s. a \<le> k \<Longrightarrow> k < b \<Longrightarrow> I k s \<Longrightarrow> I (Suc k) (body k s)"
  shows "I b (fold body [a..<b] st)"
  using assms
proof (induction b)
  case 0
  then show ?case by simp
next
  case (Suc b)
  show ?case
  proof (cases "a = Suc b")
    case True
    then show ?thesis using Suc.prems(2) by simp
  next
    case False
    then have le: "a \<le> b" using Suc.prems(1) by simp
    have "I b (fold body [a..<b] st)"
      using Suc.IH[OF le Suc.prems(2)] Suc.prems(3) by simp
    then show ?thesis using le Suc.prems(3)[of b] by simp
  qed
qed

lemma nth_update2:
  assumes "i < length cm" and "j < length (cm ! i)"
  shows "(cm[i := (cm ! i)[j := v]]) ! i' ! j' = (if i' = i \<and> j' = j then v else cm ! i' ! j')"
  using assms by (cases "i' = i") (auto simp: nth_list_update)

lemma has_shape_update2:
  assumes "has_shape n m cm" and "i < n"
  shows "has_shape n m (cm[i := (cm ! i)[j := v]])"
  using assms by (simp add: has_shape_update has_shape_row)

lemma local_distance_nth:
  assumes "i < length s1" and "j < length s2"
  shows "local_distance_matrix s1 s2 bw metric ! i ! j =
           (if \<bar>int i - int j\<bar> \<le> bw then calculateDistance (s1 ! i) (s2 ! j) metric
            else PInfinity)"
  using assms by (simp add: local_distance_matrix_def)

lemma upt_max_left: "[a..<max a b] = [a..<b]"
  by (simp add: max_def)

lemma cells_areI:
  assumes "has_shape n m cm"
    and "\<And>i j. i < n \<Longrightarrow> j < m \<Longrightarrow> cm ! i ! j = (if filled i j then f i j else PInfinity)"
  shows "cells_are n m filled f cm"
  using assms by (simp add: cells_are_def)

lemma cells_are_shape: "cells_are n m filled f cm \<Longrightarrow> has_shape n m cm"
  by (simp add: cells_are_def)

lemma cells_are_nth:
  "cells_are n m filled f cm \<Longrightarrow> i < n \<Longrightarrow> j < m \<Longrightarrow>
   cm ! i ! j = (if filled i j then f i j else PInfinity)"
  by (simp add: cells_are_def)

lemma cells_are_update:
  assumes "cells_are n m filled f cm" and "i < n" and "j < m"
    and "\<And>i' j'. i' < n \<Longrightarrow> j' < m \<Longrightarrow> filled' i' j' = (filled i' j' \<or> (i' = i \<and> j' = j))"
    and "v = f i j"
  shows "cells_are n m filled' f (cm[i := (cm ! i)[j := v]])"
proof (rule cells_areI)
  have sh: "has_shape n m cm" using assms(1) by (rule cells_are_shape)
  then show "has_shape n m (cm[i := (cm ! i)[j := v]])" using assms(2) by (rule has_shape_update2)
  fix i' j' assume b: "i' < n" "j' < m"
  have len: "i < length cm" "j < length (cm ! i)"
    using sh assms(2,3) by (simp_all add: has_shape_def has_shape_row[OF sh])
  show "cm[i := (cm ! i)[j := v]] ! i' ! j' = (if filled' i' j' then f i' j' else PInfinity)"
    using cells_are_nth[OF assms(1) b] assms(4)[OF b] assms(5)
    by (auto simp: nth_update2[OF len])
qed

lemma cells_are_weaken:
  assumes "cells_are n m filled f cm"
    and "\<And>i j. i < n \<Longrightarrow> j < m \<Longrightarrow> filled' i j \<Longrightarrow> \<not> filled i j \<Longrightarrow> f i j = PInfinity"
    and "\<And>i j. i < n \<Longrightarrow> j < m \<Longrightarrow> filled i j \<Longrightarrow> filled' i j"
  shows "cells_are n m filled' f cm"
proof (rule cells_areI)
  show "has_shape n m cm" using assms(1) by (rule cells_are_shape)
  fix i j assume b: "i < n" "j < m"
  show "cm ! i ! j = (if filled' i j then f i j else PInfinity)"
    using cells_are_nth[OF assms(1) b] assms(2)[OF b] assms(3)[OF b] by auto
qed

lemma initial_cells:
  assumes "0 < n" and "0 < m"
  shows "cells_are n m (\<lambda>i j. i = 0 \<and> j = 0) (dtw_cell ld m bw)
           ((replicate n (replicate m PInfinity))
              [0 := (replicate n (replicate m PInfinity) ! 0)[0 := ld ! 0 ! 0]])"
proof (rule cells_are_update[where filled = "\<lambda>i j. False"])
  show "cells_are n m (\<lambda>i j. False) (dtw_cell ld m bw) (replicate n (replicate m PInfinity))"
    by (rule cells_areI) (simp_all add: has_shape_replicate)
  show "ld ! 0 ! 0 = dtw_cell ld m bw 0 0" by (simp add: dtw_cell.simps)
qed (use assms in auto)

lemma first_row_cells:
  assumes "cells_are n m (\<lambda>i j. i = 0 \<and> j = 0) (dtw_cell ld m bw) cm" and "0 < n" and "0 < m"
  shows "cells_are n m (\<lambda>i j. i = 0) (dtw_cell ld m bw) (fill_first_row m bw ld cm)"
proof -
  define e where "e = max 1 (min m (nat (bw + 1)))"
  define body where "body = (\<lambda>j cm.
      cm[0 := (cm ! 0)[j := xadd (cm ! 0 ! (j - 1)) (ld ! 0 ! j)]])"
  define I where "I = (\<lambda>c. cells_are n m (\<lambda>i j. i = 0 \<and> j < c) (dtw_cell ld m bw))"
  have run: "fill_first_row m bw ld cm = fold body [1..<e] cm"
    unfolding e_def upt_max_left by (simp add: fill_first_row_def loop_up_band body_def)
  have init: "I 1 cm"
    unfolding I_def by (rule cells_are_weaken[OF assms(1)]) auto
  have step: "I (Suc k) (body k s)" if "1 \<le> k" "k < e" "I k s" for k s
    unfolding I_def body_def
  proof (rule cells_are_update[OF that(3)[unfolded I_def]])
    show "0 < n" by fact
    show "k < m" using that by (simp add: e_def)
    have "int k \<le> bw" using that by (auto simp: e_def)
    moreover have "s ! 0 ! (k - 1) = dtw_cell ld m bw 0 (k - 1)"
      using cells_are_nth[OF that(3)[unfolded I_def] assms(2), of "k - 1"] that \<open>k < m\<close> by simp
    ultimately show "xadd (s ! 0 ! (k - 1)) (ld ! 0 ! k) = dtw_cell ld m bw 0 k"
      using that(1) by (simp add: dtw_cell.simps[of ld m bw 0 k])
  qed auto
  have "I e (fold body [1..<e] cm)"
    by (rule fold_upt_invariant[where I = I, OF _ init step]) (simp_all add: e_def)
  then have "cells_are n m (\<lambda>i j. i = 0 \<and> j < e) (dtw_cell ld m bw) (fill_first_row m bw ld cm)"
    by (simp add: I_def run)
  then show ?thesis
  proof (rule cells_are_weaken)
    fix i j assume "i < n" "j < m" "i = 0" "\<not> (i = 0 \<and> j < e)"
    then have "j \<noteq> 0" "\<not> int j \<le> bw" by (auto simp: e_def)
    then show "dtw_cell ld m bw i j = PInfinity"
      using \<open>i = 0\<close> by (simp add: dtw_cell.simps[of ld m bw 0 j])
  qed auto
qed

lemma first_column_cells:
  assumes "cells_are n m (\<lambda>i j. i = 0) (dtw_cell ld m bw) cm" and "0 < n" and "0 < m"
  shows "cells_are n m (\<lambda>i j. i = 0 \<or> j = 0) (dtw_cell ld m bw) (fill_first_column n bw ld cm)"
proof -
  define e where "e = max 1 (min n (nat (bw + 1)))"
  define body where "body = (\<lambda>i cm.
      cm[i := (cm ! i)[0 := xadd (cm ! (i - 1) ! 0) (ld ! i ! 0)]])"
  define I where "I = (\<lambda>c. cells_are n m (\<lambda>i j. i = 0 \<or> (j = 0 \<and> i < c)) (dtw_cell ld m bw))"
  have run: "fill_first_column n bw ld cm = fold body [1..<e] cm"
    unfolding e_def upt_max_left by (simp add: fill_first_column_def loop_up_band body_def)
  have init: "I 1 cm"
    unfolding I_def by (rule cells_are_weaken[OF assms(1)]) auto
  have step: "I (Suc k) (body k s)" if "1 \<le> k" "k < e" "I k s" for k s
    unfolding I_def body_def
  proof (rule cells_are_update[OF that(3)[unfolded I_def]])
    show "0 < m" by fact
    show kn: "k < n" using that by (simp add: e_def)
    have "int k \<le> bw" using that by (auto simp: e_def)
    moreover have "s ! (k - 1) ! 0 = dtw_cell ld m bw (k - 1) 0"
      using cells_are_nth[OF that(3)[unfolded I_def] _ assms(3), of "k - 1"] that kn by auto
    ultimately show "xadd (s ! (k - 1) ! 0) (ld ! k ! 0) = dtw_cell ld m bw k 0"
      using that(1) by (simp add: dtw_cell.simps[of ld m bw k 0])
  qed auto
  have "I e (fold body [1..<e] cm)"
    by (rule fold_upt_invariant[where I = I, OF _ init step]) (simp_all add: e_def)
  then have "cells_are n m (\<lambda>i j. i = 0 \<or> (j = 0 \<and> i < e)) (dtw_cell ld m bw)
      (fill_first_column n bw ld cm)"
    by (simp add: I_def run)
  then show ?thesis
  proof (rule cells_are_weaken)
    fix i j assume "i < n" "j < m" "i = 0 \<or> j = 0" "\<not> (i = 0 \<or> (j = 0 \<and> i < e))"
    then have "i \<noteq> 0" "j = 0" "\<not> int i \<le> bw" by (auto simp: e_def)
    then show "dtw_cell ld m bw i j = PInfinity"
      by (simp add: dtw_cell.simps[of ld m bw i 0])
  qed auto
qed

lemma j_start_pos: "1 \<le> j_start bw i"
  by (simp add: j_start_def)

lemma j_end_le: "j_end m bw i \<le> int m"
  by (simp add: j_end_def)

lemma fill_cell_value:
  assumes "0 < i" and "0 < j"
  shows "fill_cell ld i j cm =
           (if ld ! i ! j = PInfinity then cm
            else cm[i := (cm ! i)[j := xadd (ld ! i ! j)
                   (std_min (std_min (std_min PInfinity (cm ! (i - 1) ! (j - 1)))
                                     (cm ! (i - 1) ! j))
                            (cm ! i ! (j - 1)))]])"
  using assms by (simp add: fill_cell_def Let_def)

lemma fill_row_cells:
  assumes "cells_are n m (\<lambda>i j. i = 0 \<or> j = 0 \<or> i < k) (dtw_cell ld m bw) cm"
    and "1 \<le> k" and "k < n" and "0 < m"
  shows "cells_are n m (\<lambda>i j. i = 0 \<or> j = 0 \<or> i < Suc k) (dtw_cell ld m bw)
           (fill_row m bw ld k cm)"
proof -
  define js where "js = nat (j_start bw k)"
  define je where "je = max js (nat (j_end m bw k))"
  define I where "I = (\<lambda>c. cells_are n m (\<lambda>i j. i = 0 \<or> j = 0 \<or> i < k \<or> (i = k \<and> j < c))
      (dtw_cell ld m bw))"
  have js: "1 \<le> js" "int js = j_start bw k"
    using j_start_pos[of bw k] by (simp_all add: js_def)
  have run: "fill_row m bw ld k cm = fold (fill_cell ld k) [js..<je] cm"
    unfolding je_def upt_max_left by (simp add: fill_row_def loop_up_True js_def)
  have init: "I js cm"
    unfolding I_def
  proof (rule cells_are_weaken[OF assms(1)])
    fix i j assume a: "i < n" "j < m" "i = 0 \<or> j = 0 \<or> i < k \<or> (i = k \<and> j < js)"
      "\<not> (i = 0 \<or> j = 0 \<or> i < k)"
    then have "i = k" "j \<noteq> 0" "k \<noteq> 0" "int j < j_start bw k" using js by auto
    then show "dtw_cell ld m bw i j = PInfinity"
      by (simp add: dtw_cell.simps[of ld m bw k j] in_body_range_def)
  qed auto
  have step: "I (Suc c) (fill_cell ld k c s)" if "js \<le> c" "c < je" "I c s" for c s
  proof -
    have c: "0 < c" "c < m" "in_body_range m bw k c"
      using that js j_end_le[of m bw k] by (auto simp: je_def in_body_range_def)
    note inv = that(3)[unfolded I_def]
    have k: "0 < k" "k - 1 < n" using assms(2,3) by auto
    show ?thesis
    proof (cases "ld ! k ! c = PInfinity")
      case True
      have "dtw_cell ld m bw k c = PInfinity"
        using True c k by (simp add: dtw_cell.simps[of ld m bw k c])
      then have "cells_are n m (\<lambda>i j. i = 0 \<or> j = 0 \<or> i < k \<or> (i = k \<and> j < Suc c))
          (dtw_cell ld m bw) s"
        by (intro cells_are_weaken[OF inv]) (auto simp: less_Suc_eq)
      then show ?thesis using True c k by (simp add: I_def fill_cell_value)
    next
      case False
      have p1: "s ! (k - 1) ! (c - 1) = dtw_cell ld m bw (k - 1) (c - 1)"
        using cells_are_nth[OF inv k(2), of "c - 1"] c k by auto
      have p2: "s ! (k - 1) ! c = dtw_cell ld m bw (k - 1) c"
        using cells_are_nth[OF inv k(2), of c] c k by auto
      have p3: "s ! k ! (c - 1) = dtw_cell ld m bw k (c - 1)"
        using cells_are_nth[OF inv assms(3), of "c - 1"] c k by auto
      have v: "xadd (ld ! k ! c)
                 (std_min (std_min (std_min PInfinity (s ! (k - 1) ! (c - 1))) (s ! (k - 1) ! c))
                    (s ! k ! (c - 1))) = dtw_cell ld m bw k c"
        unfolding p1 p2 p3 using False c k by (simp add: dtw_cell.simps[of ld m bw k c])
      have eq: "fill_cell ld k c s = s[k := (s ! k)[c := dtw_cell ld m bw k c]]"
        unfolding fill_cell_value[OF k(1) c(1)] v using False by simp
      show ?thesis
        unfolding I_def eq
        by (rule cells_are_update[OF inv assms(3) c(2) _ refl]) (auto simp: less_Suc_eq)
    qed
  qed
  have "I je (fold (fill_cell ld k) [js..<je] cm)"
    by (rule fold_upt_invariant[where I = I, OF _ init step]) (simp_all add: je_def)
  then have "cells_are n m (\<lambda>i j. i = 0 \<or> j = 0 \<or> i < k \<or> (i = k \<and> j < je))
      (dtw_cell ld m bw) (fill_row m bw ld k cm)"
    by (simp add: I_def run)
  then show ?thesis
  proof (rule cells_are_weaken)
    fix i j assume a: "i < n" "j < m" "i = 0 \<or> j = 0 \<or> i < Suc k"
      "\<not> (i = 0 \<or> j = 0 \<or> i < k \<or> (i = k \<and> j < je))"
    then have "i = k" "j \<noteq> 0" "k \<noteq> 0" "\<not> int j < j_end m bw k" by (auto simp: je_def)
    then show "dtw_cell ld m bw i j = PInfinity"
      by (simp add: dtw_cell.simps[of ld m bw k j] in_body_range_def)
  qed auto
qed

lemma fill_rest_cells:
  assumes "cells_are n m (\<lambda>i j. i = 0 \<or> j = 0) (dtw_cell ld m bw) cm" and "0 < n" and "0 < m"
  shows "cells_are n m (\<lambda>i j. True) (dtw_cell ld m bw) (fill_rest n m bw ld cm)"
proof -
  define e where "e = max 1 n"
  define I where "I = (\<lambda>k. cells_are n m (\<lambda>i j. i = 0 \<or> j = 0 \<or> i < k) (dtw_cell ld m bw))"
  have run: "fill_rest n m bw ld cm = fold (fill_row m bw ld) [1..<e] cm"
    unfolding e_def upt_max_left by (simp add: fill_rest_def loop_up_True)
  have init: "I 1 cm"
    unfolding I_def by (rule cells_are_weaken[OF assms(1)]) auto
  have step: "I (Suc k) (fill_row m bw ld k s)" if "1 \<le> k" "k < e" "I k s" for k s
    unfolding I_def using that assms(2,3)
    by (intro fill_row_cells) (simp_all add: I_def e_def)
  have "I e (fold (fill_row m bw ld) [1..<e] cm)"
    by (rule fold_upt_invariant[where I = I, OF _ init step]) (simp_all add: e_def)
  then have "cells_are n m (\<lambda>i j. i = 0 \<or> j = 0 \<or> i < e) (dtw_cell ld m bw)
      (fill_rest n m bw ld cm)"
    by (simp add: I_def run)
  then show ?thesis
    by (rule cells_are_weaken) (auto simp: e_def)
qed

lemma filled_cost_matrix_cells:
  assumes "s1 \<noteq> []" and "s2 \<noteq> []"
  shows "cells_are (length s1) (length s2) (\<lambda>i j. True)
           (dtw_cell (local_distance_matrix s1 s2 bw metric) (length s2) bw)
           (filled_cost_matrix s1 s2 bw metric)"
  using assms unfolding filled_cost_matrix_def Let_def
  by (intro fill_rest_cells first_column_cells first_row_cells initial_cells) simp_all

lemma filled_cost_matrix_nth:
  assumes "i < length s1" and "j < length s2"
  shows "filled_cost_matrix s1 s2 bw metric ! i ! j =
           dtw_cell (local_distance_matrix s1 s2 bw metric) (length s2) bw i j"
proof -
  have "s1 \<noteq> []" "s2 \<noteq> []" using assms by auto
  from cells_are_nth[OF filled_cost_matrix_cells[OF this] assms] show ?thesis by simp
qed

subsection \<open>Cells outside the band\<close>

lemma std_min_PInfinity_right: "std_min a PInfinity = a"
  by (cases a) (simp_all add: std_min_def)

lemma dtw_cell_outside_band:
  assumes "i < length s1" and "j < length s2" and "bw < \<bar>int i - int j\<bar>"
  shows "dtw_cell (local_distance_matrix s1 s2 bw metric) (length s2) bw i j = PInfinity"
proof -
  have ld: "local_distance_matrix s1 s2 bw metric ! i ! j = PInfinity"
    using assms by (simp add: local_distance_nth)
  show ?thesis
  proof (cases "i = 0 \<or> j = 0")
    case True
    then show ?thesis
      using assms(3) ld
      by (subst dtw_cell.simps) auto
  next
    case False
    then show ?thesis using ld by (subst dtw_cell.simps) simp
  qed
qed

lemma in_body_range_bounds:
  assumes "in_body_range m bw i j"
  shows "1 \<le> j" and "j < m"
  using assms j_start_pos[of bw i] j_end_le[of m bw i] by (auto simp: in_body_range_def)


text \<open>
  C4. For non-empty sequences and the effective band width \<open>bw\<close>, after the fill every
  cell \<open>(i, j)\<close> with \<open>\<bar>i - j\<bar> > bw\<close> holds \<open>+infinity\<close>, and no such cell determines a
  minimum: every cell the fill writes holds its local distance plus the minimum over its
  predecessors inside the band alone. In the first row and the first column the one
  predecessor is inside the band; in the body the three predecessors are read, and the
  value is the one \<open>band_min_prev\<close> computes from those inside the band. The cells the
  fill writes in the body are those of the inner loop's range, \<open>in_body_range\<close>, whose local
  distance is finite.
\<close>

theorem dtw_band_cells:
  assumes "sequence1 \<noteq> []" and "sequence2 \<noteq> []"
  shows "let n = length sequence1; m = length sequence2;
             bw = effective_band_width n m band_width;
             ld = local_distance_matrix sequence1 sequence2 bw metric;
             cm = dtw_cost_matrix (computeDTW sequence1 sequence2 band_width metric return_path)
         in (\<forall>i j. i < n \<and> j < m \<and> bw < \<bar>int i - int j\<bar> \<longrightarrow> cm ! i ! j = PInfinity) \<and>
            (\<forall>j. 1 \<le> j \<and> j < m \<and> int j \<le> bw \<longrightarrow>
               cm ! 0 ! j = xadd (cm ! 0 ! (j - 1)) (ld ! 0 ! j)) \<and>
            (\<forall>i. 1 \<le> i \<and> i < n \<and> int i \<le> bw \<longrightarrow>
               cm ! i ! 0 = xadd (cm ! (i - 1) ! 0) (ld ! i ! 0)) \<and>
            (\<forall>i j. 1 \<le> i \<and> i < n \<and> in_body_range m bw i j \<and> ld ! i ! j \<noteq> PInfinity \<longrightarrow>
               cm ! i ! j = xadd (ld ! i ! j) (band_min_prev bw cm i j))"
proof -
  define n where "n = length sequence1"
  define m where "m = length sequence2"
  define bw where "bw = effective_band_width n m band_width"
  define ld where "ld = local_distance_matrix sequence1 sequence2 bw metric"
  define cm where "cm = filled_cost_matrix sequence1 sequence2 bw metric"
  have cm_eq: "dtw_cost_matrix (computeDTW sequence1 sequence2 band_width metric return_path) = cm"
    using assms by (simp add: computeDTW_def Let_def cm_def bw_def n_def m_def)
  have cell: "cm ! i ! j = dtw_cell ld m bw i j" if "i < n" "j < m" for i j
    using that filled_cost_matrix_nth[of i sequence1 j sequence2 bw metric]
    by (simp add: cm_def ld_def n_def m_def)
  have outside: "cm ! i ! j = PInfinity" if "i < n" "j < m" "bw < \<bar>int i - int j\<bar>" for i j
    using that dtw_cell_outside_band[of i sequence1 j sequence2 bw metric] cell[of i j]
    by (simp add: ld_def n_def m_def)
  have row: "cm ! 0 ! j = xadd (cm ! 0 ! (j - 1)) (ld ! 0 ! j)"
    if "1 \<le> j" "j < m" "int j \<le> bw" for j
  proof -
    have "0 < n" using assms(1) by (simp add: n_def)
    then show ?thesis
      using that cell[of 0 j] cell[of 0 "j - 1"] by (simp add: dtw_cell.simps[of ld m bw 0 j])
  qed
  have col: "cm ! i ! 0 = xadd (cm ! (i - 1) ! 0) (ld ! i ! 0)"
    if "1 \<le> i" "i < n" "int i \<le> bw" for i
  proof -
    have "0 < m" using assms(2) by (simp add: m_def)
    then show ?thesis
      using that cell[of i 0] cell[of "i - 1" 0] by (simp add: dtw_cell.simps[of ld m bw i 0])
  qed
  have body: "cm ! i ! j = xadd (ld ! i ! j) (band_min_prev bw cm i j)"
    if "1 \<le> i" "i < n" "in_body_range m bw i j" "ld ! i ! j \<noteq> PInfinity" for i j
  proof -
    have j: "1 \<le> j" "j < m" using in_body_range_bounds[OF that(3)] by simp_all
    have pred: "(if \<bar>int p - int q\<bar> \<le> bw then std_min acc (cm ! p ! q) else acc) =
                  std_min acc (cm ! p ! q)" if "p < n" "q < m" for p q acc
      using outside[OF that] by (auto simp: std_min_PInfinity_right)
    have b: "i - 1 < n" "j - 1 < m" using that(2) j(2) by simp_all
    have "band_min_prev bw cm i j =
            std_min (std_min (std_min PInfinity (cm ! (i - 1) ! (j - 1))) (cm ! (i - 1) ! j))
              (cm ! i ! (j - 1))"
      unfolding band_min_prev_def
      by (simp only: fold.simps o_apply id_apply case_prod_conv
          pred[OF b(1) b(2)] pred[OF b(1) j(2)] pred[OF that(2) b(2)])
    moreover have "cm ! i ! j =
        xadd (ld ! i ! j)
          (std_min (std_min (std_min PInfinity (cm ! (i - 1) ! (j - 1))) (cm ! (i - 1) ! j))
             (cm ! i ! (j - 1)))"
      using that j cell[of i j] cell[of "i - 1" "j - 1"] cell[of "i - 1" j] cell[of i "j - 1"]
      by (simp add: dtw_cell.simps[of ld m bw i j])
    ultimately show ?thesis by simp
  qed
  show ?thesis
    unfolding Let_def cm_eq[unfolded bw_def n_def m_def]
    using outside row col body
    unfolding cm_def ld_def bw_def n_def m_def by blast
qed

theorem dtw_band_cells_witness:
  "dtw_cost_matrix (computeDTW [[0], [1], [2]] [[0], [1], [2]] 1 EUCLIDEAN True) ! 0 ! 2 = PInfinity \<and>
   dtw_cost_matrix (computeDTW [[0], [1], [2]] [[0], [1], [2]] 1 EUCLIDEAN True) ! 2 ! 0 = PInfinity"
proof -
  have "\<forall>i j. i < 3 \<and> j < 3 \<and> 1 < \<bar>int i - int j\<bar> \<longrightarrow>
      dtw_cost_matrix (computeDTW [[0], [1], [2]] [[0], [1], [2]] 1 EUCLIDEAN True) ! i ! j = PInfinity"
    using dtw_band_cells[of "[[0], [1], [2]]" "[[0], [1], [2]]" 1 EUCLIDEAN True]
    by (simp add: Let_def effective_band_width_def)
  from this[rule_format, of 0 2] this[rule_format, of 2 0] show ?thesis by simp
qed


subsection \<open>DTW of a sequence with itself\<close>

text \<open>Values that are not negative: reals from \<open>0\<close> on, and \<open>+infinity\<close>.\<close>

lemma xle_zero_xadd: "xle (Finite 0) a \<Longrightarrow> xle (Finite 0) b \<Longrightarrow> xle (Finite 0) (xadd a b)"
  by (cases a; cases b) simp_all

lemma xle_zero_std_min: "xle (Finite 0) a \<Longrightarrow> xle (Finite 0) b \<Longrightarrow> xle (Finite 0) (std_min a b)"
  by (simp add: std_min_def)

lemma std_min_zero: "xle (Finite 0) b \<Longrightarrow> std_min (Finite 0) b = Finite 0"
  by (cases b) (simp_all add: std_min_def)

lemma sum_squares_nonneg:
  "0 \<le> acc \<Longrightarrow>
   0 \<le> fold (\<lambda>i distance. let diff = (a :: real list) ! i - b ! i in distance + diff * diff) is acc"
  by (induction "is" arbitrary: acc) (simp_all add: Let_def)

lemma fold_keep: "fold (\<lambda>i distance. distance) is acc = acc"
  by (induction "is") simp_all

lemma euclidean_nonneg: "xle (Finite 0) (calculateDistance a b EUCLIDEAN)"
  by (simp add: calculateDistance_def sum_squares_nonneg)

lemma euclidean_self: "calculateDistance a a EUCLIDEAN = Finite 0"
  by (simp add: calculateDistance_def fold_keep)

lemma local_distance_nonneg:
  assumes "i < length s1" and "j < length s2"
  shows "xle (Finite 0) (local_distance_matrix s1 s2 bw EUCLIDEAN ! i ! j)"
  using assms by (simp add: local_distance_nth euclidean_nonneg)

lemma dtw_cell_nonneg:
  assumes "\<And>p q. p < n \<Longrightarrow> q < m \<Longrightarrow> xle (Finite 0) (ld ! p ! q)"
    and "i < n" and "j < m"
  shows "xle (Finite 0) (dtw_cell ld m bw i j)"
  using assms
proof (induction ld m bw i j rule: dtw_cell.induct)
  case (1 ld m bw i j)
  have ld: "xle (Finite 0) (ld ! i ! j)" using "1.prems" by simp
  have b: "i - 1 < n" "j - 1 < m" using "1.prems"(2,3) by simp_all
  show ?case
  proof (cases "i = 0 \<and> j = 0")
    case True
    then show ?thesis using ld by (subst dtw_cell.simps) simp
  next
    case nz: False
    show ?thesis
    proof (cases "i = 0")
      case True
      then have "xle (Finite 0) (dtw_cell ld m bw 0 (j - 1))" if "int j \<le> bw"
        using "1.IH"(1)[OF nz True that "1.prems"(1)] "1.prems"(2) b by simp
      then show ?thesis
        using True nz ld by (subst dtw_cell.simps) (auto intro!: xle_zero_xadd)
    next
      case i: False
      show ?thesis
      proof (cases "j = 0")
        case True
        then have "xle (Finite 0) (dtw_cell ld m bw (i - 1) 0)" if "int i \<le> bw"
          using "1.IH"(2)[OF nz i True that "1.prems"(1)] "1.prems"(3) b by simp
        then show ?thesis
          using True i ld by (subst dtw_cell.simps) (auto intro!: xle_zero_xadd)
      next
        case j: False
        show ?thesis
        proof (cases "in_body_range m bw i j \<and> ld ! i ! j \<noteq> PInfinity")
          case True
          have "xle (Finite 0) (dtw_cell ld m bw (i - 1) (j - 1))"
            "xle (Finite 0) (dtw_cell ld m bw (i - 1) j)"
            "xle (Finite 0) (dtw_cell ld m bw i (j - 1))"
            using "1.IH"(3)[OF nz i j True "1.prems"(1) b]
              "1.IH"(4)[OF nz i j True "1.prems"(1) b(1) "1.prems"(3)]
              "1.IH"(5)[OF nz i j True "1.prems"(1) "1.prems"(2) b(2)]
            by simp_all
          then show ?thesis
            using True i j ld
            by (subst dtw_cell.simps) (simp add: xle_zero_xadd xle_zero_std_min)
        next
          case False
          then show ?thesis using i j by (subst dtw_cell.simps) auto
        qed
      qed
    qed
  qed
qed

lemma wrap_int32_id: "- (2 ^ 31) \<le> x \<Longrightarrow> x < 2 ^ 31 \<Longrightarrow> wrap_int32 x = x"
  by (simp add: wrap_int32_def)

lemma in_body_range_unconstrained:
  assumes "1 \<le> i" and "i < n" and "1 \<le> j" and "j < n" and "2 * int n < 2 ^ 31"
  shows "in_body_range n (int n) i j"
proof -
  have "wrap_int32 (int i + int n + 1) = int i + int n + 1"
    using assms by (intro wrap_int32_id) auto
  then show ?thesis
    using assms by (simp add: in_body_range_def j_start_def j_end_def)
qed

lemma dtw_cell_diagonal:
  assumes nonneg: "\<And>p q. p < n \<Longrightarrow> q < n \<Longrightarrow> xle (Finite 0) (ld ! p ! q)"
    and zero: "\<And>p. p < n \<Longrightarrow> ld ! p ! p = Finite 0"
    and small: "2 * int n < 2 ^ 31"
    and "i < n"
  shows "dtw_cell ld n (int n) i i = Finite 0"
  using \<open>i < n\<close>
proof (induction i)
  case 0
  then show ?case using zero[of 0] by (simp add: dtw_cell.simps[of ld n "int n" 0 0])
next
  case (Suc i)
  have r: "in_body_range n (int n) (Suc i) (Suc i)"
    using Suc.prems small by (intro in_body_range_unconstrained) auto
  have d: "dtw_cell ld n (int n) i i = Finite 0" using Suc by simp
  have u: "xle (Finite 0) (dtw_cell ld n (int n) i (Suc i))"
    and l: "xle (Finite 0) (dtw_cell ld n (int n) (Suc i) i)"
    using Suc.prems by (auto intro!: dtw_cell_nonneg[where n = n] nonneg)
  have "std_min (std_min (std_min PInfinity (Finite 0)) (dtw_cell ld n (int n) i (Suc i)))
          (dtw_cell ld n (int n) (Suc i) i) = Finite 0"
  proof -
    have "std_min PInfinity (Finite 0) = Finite 0" by (simp add: std_min_def)
    then show ?thesis using u l by (simp add: std_min_zero)
  qed
  then show ?case
    using r d zero[OF Suc.prems]
    by (simp add: dtw_cell.simps[of ld n "int n" "Suc i" "Suc i"])
qed

lemma backtrack_diagonal:
  assumes "\<And>p. p < n \<Longrightarrow> cm ! p ! p = Finite 0"
    and "\<And>p q. p < n \<Longrightarrow> q < n \<Longrightarrow> xle (Finite 0) (cm ! p ! q)"
    and "k < n"
  shows "backtrack cm k k path = path @ map (\<lambda>i. (int i, int i)) (rev [1..<Suc k])"
  using \<open>k < n\<close>
proof (induction k arbitrary: path)
  case 0
  then show ?case by (simp add: backtrack.simps[of cm 0 0])
next
  case (Suc k)
  have d: "cm ! k ! k = Finite 0" using assms(1)[of k] Suc.prems by simp
  have "xle (Finite 0) (cm ! k ! Suc k)" "xle (Finite 0) (cm ! Suc k ! k)"
    using assms(2)[of k "Suc k"] assms(2)[of "Suc k" k] Suc.prems by simp_all
  then have "backtrack cm (Suc k) (Suc k) path =
          backtrack cm k k (path @ [(int (Suc k), int (Suc k))])"
    using d by (subst backtrack.simps) (simp add: Let_def)
  also have "\<dots> = (path @ [(int (Suc k), int (Suc k))]) @ map (\<lambda>i. (int i, int i)) (rev [1..<Suc k])"
    using Suc.prems by (intro Suc.IH) simp
  finally show ?case by simp
qed


text \<open>
  C5. For every non-empty sequence \<open>s\<close>, \<open>computeDTW s s\<close> with an unconstrained band (a
  band width that is not positive) and the Euclidean metric returns the distance \<open>0\<close> and
  the path \<open>[(0, 0), (1, 1), \<dots>, (n - 1, n - 1)]\<close>. The vectors of \<open>s\<close> may differ in
  dimension among themselves. The bound on the length keeps \<^verbatim>\<open>i + band_width + 1\<close> inside
  the \<^verbatim>\<open>int\<close> range; a sequence that long has no cost matrix in a 32-bit address space.
\<close>

theorem dtw_self_distance:
  assumes "s \<noteq> []" and "band_width \<le> 0" and "2 * int (length s) < 2 ^ 31"
  shows "dtw_distance (computeDTW s s band_width EUCLIDEAN True) = Finite 0 \<and>
         dtw_path (computeDTW s s band_width EUCLIDEAN True) =
           map (\<lambda>i. (int i, int i)) [0..<length s]"
proof -
  define n where "n = length s"
  define ld where "ld = local_distance_matrix s s (int n) EUCLIDEAN"
  define cm where "cm = filled_cost_matrix s s (int n) EUCLIDEAN"
  have n: "0 < n" using assms(1) by (simp add: n_def)
  have nonneg: "xle (Finite 0) (ld ! p ! q)" if "p < n" "q < n" for p q
    using that by (simp add: ld_def n_def local_distance_nonneg)
  have zero: "ld ! p ! p = Finite 0" if "p < n" for p
    using that by (simp add: ld_def n_def local_distance_nth euclidean_self)
  have cell: "cm ! p ! q = dtw_cell ld n (int n) p q" if "p < n" "q < n" for p q
    using that filled_cost_matrix_nth[of p s q s "int n" EUCLIDEAN]
    by (simp add: cm_def ld_def n_def)
  have diag: "cm ! p ! p = Finite 0" if "p < n" for p
    using cell[OF that that] dtw_cell_diagonal[OF nonneg zero _ that] assms(3)
    by (simp add: n_def)
  have cm_nonneg: "xle (Finite 0) (cm ! p ! q)" if "p < n" "q < n" for p q
    using cell[OF that] dtw_cell_nonneg[of n n ld p q "int n"] nonneg that by simp
  have bt: "backtrack cm (n - 1) (n - 1) [] = map (\<lambda>i. (int i, int i)) (rev [1..<n])"
    using backtrack_diagonal[of n cm "n - 1" "[]"] diag cm_nonneg n by simp
  have "rev (backtrack cm (n - 1) (n - 1) [] @ [(0, 0)]) = map (\<lambda>i. (int i, int i)) [0..<n]"
    unfolding bt using n by (simp add: rev_map upt_rec[of 0 n])
  moreover have "cm ! (n - 1) ! (n - 1) = Finite 0" using diag[of "n - 1"] n by simp
  ultimately show ?thesis
    using assms(1,2)
    by (simp add: computeDTW_def Let_def effective_band_width_def cm_def n_def)
qed


theorem dtw_self_distance_witness:
  "dtw_distance (computeDTW [[0, 0], [1, 1], [2, 2]] [[0, 0], [1, 1], [2, 2]] (- 1) EUCLIDEAN True) =
     Finite 0 \<and>
   dtw_path (computeDTW [[0, 0], [1, 1], [2, 2]] [[0, 0], [1, 1], [2, 2]] (- 1) EUCLIDEAN True) =
     [(0, 0), (1, 1), (2, 2)]"
  using dtw_self_distance[of "[[0, 0], [1, 1], [2, 2]]" "- 1"]
  by (simp add: upt_rec)

subsection \<open>Array bounds in the MFCC pipeline\<close>

text \<open>
  Every stage of \<open>extractMFCC\<close> is followed through its loops. The stages before the mel
  accumulation stay inside their vectors for every frame and every \<open>frame_length \<ge> 0\<close>; the
  spectrum has \<open>size / 2 + 1\<close> entries and the rows of the filter bank have
  \<open>frame_length / 2 + 1\<close>.
\<close>

lemma for_up_fails:
  assumes "i \<le> k0" and "k0 < n" and "I i st"
    and "\<And>k s. i \<le> k \<Longrightarrow> k < k0 \<Longrightarrow> I k s \<Longrightarrow> \<exists>s'. body k s = Inr s' \<and> I (k + 1) s'"
    and "\<And>s. I k0 s \<Longrightarrow> body k0 s = Inl e"
  shows "for_up i n body st = Inl e"
  using assms
proof (induction i n body st rule: for_up.induct)
  case (1 i n body st)
  show ?case
  proof (cases "i = k0")
    case True
    then show ?thesis using "1.prems" by (subst for_up.simps) simp
  next
    case False
    then have lt: "i < k0" "i < n" using "1.prems"(1,2) by auto
    from "1.prems"(4)[of i st] lt "1.prems"(3)
    obtain s' where s': "body i st = Inr s'" "I (i + 1) s'" by auto
    have "for_up (i + 1) n body s' = Inl e"
      using "1.IH"[OF lt(2) s'(1) _ "1.prems"(2) s'(2)] lt "1.prems"(4,5) by force
    then show ?thesis using lt s' by (subst for_up.simps) simp
  qed
qed

lemma int_div_two: "0 \<le> a \<Longrightarrow> int_div a 2 = a div 2"
  by (simp add: int_div_def)

lemma hamming_window_total:
  assumes "0 \<le> len"
  shows "\<exists>w. hamming_window len = Inr w \<and> length w = nat len"
proof -
  define body where "body = (\<lambda>i window.
         vec_put window i (0.54 - 0.46 * cos (2 * PI * real_of_int i / real_of_int (len - 1))))"
  define I where "I = (\<lambda>(k::int) (w :: real list). length w = nat len)"
  have step: "\<exists>s'. body k s = Inr s' \<and> I (k + 1) s'" if "0 \<le> k" "k < len" "I k s" for k s
    using that by (simp add: body_def I_def vec_put_def)
  from for_up_total[where I = I and body = body and i = 0 and n = len
      and st = "replicate (nat len) 0", OF _ step]
  show ?thesis using assms by (auto simp: hamming_window_def new_vector_def body_def I_def)
qed

lemma hamming_window_negative: "len < 0 \<Longrightarrow> hamming_window len = Inl LengthError"
  by (simp add: hamming_window_def new_vector_def)

lemma apply_window_total:
  assumes "length window = nat frame_length" and "0 \<le> frame_length"
  shows "\<exists>fr. apply_window frame window frame_length = Inr fr \<and> length fr = length frame"
proof -
  define body where "body = (\<lambda>i frame.
       bindE (vec_at frame i) (\<lambda>x.
       bindE (vec_at window i) (\<lambda>w.
         vec_put frame i (x * w))))"
  define I where "I = (\<lambda>(k::int) (fr :: real list). length fr = length frame)"
  have step: "\<exists>s'. body k s = Inr s' \<and> I (k + 1) s'"
    if "0 \<le> k" "k < min frame_length (int (length frame))" "I k s" for k s
    using that assms by (simp add: body_def I_def vec_put_def vec_at_def)
  from for_up_total[where I = I and body = body and i = 0
      and n = "min frame_length (int (length frame))" and st = frame, OF _ step]
  show ?thesis by (auto simp: apply_window_def body_def I_def)
qed

lemma dft_total: "\<exists>sp. dft signal = Inr sp \<and> int (length sp) = int (length signal) div 2 + 1"
proof -
  define N where "N = int (length signal)"
  define inner where "inner = (\<lambda>(k::int) n (st :: real \<times> real). case st of (re, im) \<Rightarrow>
                   bindE (vec_at signal n) (\<lambda>x.
                     let angle = - 2 * PI * real_of_int k * real_of_int n / real_of_int N in
                     Inr (re + x * cos angle, im + x * sin angle)))"
  define body where "body = (\<lambda>k magnitude.
          bindE (for_up 0 N (inner k) (0, 0)) (\<lambda>(re, im).
            vec_put magnitude k (sqrt (re * re + im * im))))"
  define I where "I = (\<lambda>(k::int) (mg :: real list). int (length mg) = N div 2 + 1)"
  have N: "0 \<le> N" by (simp add: N_def)
  have inner: "\<exists>r. for_up 0 N (inner k) (0, 0) = Inr r" for k
  proof -
    have "\<exists>s'. inner k j s = Inr s' \<and> True" if "0 \<le> j" "j < N" for j s
      using that by (cases s) (simp add: inner_def vec_at_def N_def Let_def)
    from for_up_total[where I = "\<lambda>_ _. True" and body = "inner k" and i = 0 and n = N
        and st = "(0, 0)", OF _ this]
    show ?thesis by auto
  qed
  have step: "\<exists>s'. body k s = Inr s' \<and> I (k + 1) s'"
    if "0 \<le> k" "k < N div 2 + 1" "I k s" for k s
  proof -
    from inner[of k] obtain re im where "for_up 0 N (inner k) (0, 0) = Inr (re, im)" by force
    then show ?thesis using that by (simp add: body_def I_def vec_put_def)
  qed
  have "I 0 (replicate (nat (N div 2 + 1)) 0)" using N by (simp add: I_def)
  from for_up_total[where I = I and body = body and i = 0 and n = "N div 2 + 1", OF this step]
  obtain sp where "for_up 0 (N div 2 + 1) body (replicate (nat (N div 2 + 1)) 0) = Inr sp"
    "int (length sp) = N div 2 + 1" by (auto simp: I_def)
  then show ?thesis
    using N by (simp add: dft_def Let_def N_def[symmetric] int_div_two new_vector_def body_def
        inner_def split_def)
qed

lemma dct_total:
  assumes "0 \<le> num_coeffs"
  shows "\<exists>c. dct signal num_coeffs = Inr c"
proof -
  define N where "N = int (length signal)"
  define inner where "inner = (\<lambda>(k::int) n (sum :: real).
                   bindE (vec_at signal n) (\<lambda>x.
                     Inr (sum + x * cos (PI * real_of_int k * real_of_int (2 * n + 1)
                                          / real_of_int (2 * N)))))"
  define body where "body = (\<lambda>k dct_coeffs.
          bindE (for_up 0 N (inner k) 0) (\<lambda>sum. vec_put dct_coeffs k sum))"
  define I where "I = (\<lambda>(k::int) (c :: real list). length c = nat num_coeffs)"
  have inner: "\<exists>r. for_up 0 N (inner k) 0 = Inr r" for k
  proof -
    have "\<exists>s'. inner k j s = Inr s' \<and> True" if "0 \<le> j" "j < N" for j s
      using that by (simp add: inner_def vec_at_def N_def)
    from for_up_total[where I = "\<lambda>_ _. True" and body = "inner k" and i = 0 and n = N
        and st = 0, OF _ this]
    show ?thesis by auto
  qed
  have step: "\<exists>s'. body k s = Inr s' \<and> I (k + 1) s'"
    if "0 \<le> k" "k < num_coeffs" "I k s" for k s
  proof -
    from inner[of k] obtain r where "for_up 0 N (inner k) 0 = Inr r" by blast
    then show ?thesis using that by (simp add: body_def I_def vec_put_def)
  qed
  have "I 0 (replicate (nat num_coeffs) 0)" by (simp add: I_def)
  from for_up_total[where I = I and body = body and i = 0 and n = num_coeffs, OF this step]
  obtain c where "for_up 0 num_coeffs body (replicate (nat num_coeffs) 0) = Inr c" by auto
  then show ?thesis
    using assms by (simp add: dct_def Let_def N_def[symmetric] new_vector_def body_def inner_def)
qed

lemma dct_negative: "num_coeffs < 0 \<Longrightarrow> dct signal num_coeffs = Inl LengthError"
  by (simp add: dct_def new_vector_def)

text \<open>
  The filter bank. The bin points lie between \<open>0\<close> and \<open>(nfft + 1) div 2\<close>, because the mel
  points lie between the mel values of \<open>0\<close> and of half the sample rate; so every index a
  filter is written at is below \<open>nfft div 2 + 1\<close>.
\<close>

lemma hz_to_mel_zero: "hz_to_mel 0 = 0"
  by (simp add: hz_to_mel_def)

lemma hz_to_mel_nonneg: "0 \<le> hz \<Longrightarrow> 0 \<le> hz_to_mel hz"
  by (simp add: hz_to_mel_def)

lemma mel_to_hz_zero: "mel_to_hz 0 = 0"
  by (simp add: mel_to_hz_def)

lemma mel_to_hz_mono: "a \<le> b \<Longrightarrow> mel_to_hz a \<le> mel_to_hz b"
  by (simp add: mel_to_hz_def powr_mono)

lemma mel_round_trip: "0 \<le> hz \<Longrightarrow> mel_to_hz (hz_to_mel hz) = hz"
proof -
  assume "0 \<le> hz"
  then have "0 < 1 + hz / 700" by (simp add: add_pos_nonneg)
  then have "10 powr (log 10 (1 + hz / 700)) = 1 + hz / 700" by simp
  then show ?thesis by (simp add: mel_to_hz_def hz_to_mel_def)
qed

lemma bin_point_bounds:
  assumes "0 \<le> nfft" and "0 < sr" and "0 \<le> mel" and "mel \<le> hz_to_mel (sr / 2)"
  shows "0 \<le> \<lfloor>real_of_int (nfft + 1) * mel_to_hz mel / sr\<rfloor>"
    and "\<lfloor>real_of_int (nfft + 1) * mel_to_hz mel / sr\<rfloor> \<le> (nfft + 1) div 2"
proof -
  have lo: "0 \<le> mel_to_hz mel" using mel_to_hz_mono[OF assms(3)] by (simp add: mel_to_hz_zero)
  have hi: "mel_to_hz mel \<le> sr / 2"
    using mel_to_hz_mono[OF assms(4)] assms(2) by (simp add: mel_round_trip)
  show "0 \<le> \<lfloor>real_of_int (nfft + 1) * mel_to_hz mel / sr\<rfloor>"
    using lo assms(1,2) by simp
  have "real_of_int (nfft + 1) * mel_to_hz mel \<le> real_of_int (nfft + 1) * (sr / 2)"
    using hi assms(1) by (intro mult_left_mono) auto
  then have "real_of_int (nfft + 1) * mel_to_hz mel / sr \<le> real_of_int (nfft + 1) / 2"
    using assms(2) by (simp add: field_simps)
  then have "\<lfloor>real_of_int (nfft + 1) * mel_to_hz mel / sr\<rfloor> \<le> \<lfloor>real_of_int (nfft + 1) / 2\<rfloor>"
    by (rule floor_mono)
  also have "\<lfloor>real_of_int (nfft + 1) / 2\<rfloor> = (nfft + 1) div 2"
    using floor_divide_of_int_eq[of "nfft + 1" 2, where ?'a = real] by simp
  finally show "\<lfloor>real_of_int (nfft + 1) * mel_to_hz mel / sr\<rfloor> \<le> (nfft + 1) div 2" .
qed

lemma for_up_put2_total:
  assumes "has_shape T N fb" and "0 \<le> r" and "r < int T" and "0 \<le> a" and "b \<le> int N"
  shows "\<exists>fb'. for_up a b (\<lambda>k fb. vec_put2 fb r k (g k)) fb = Inr fb' \<and> has_shape T N fb'"
proof -
  define I where "I = (\<lambda>(k::int) (f :: 'a list list). has_shape T N f)"
  have step: "\<exists>s'. vec_put2 s r k (g k) = Inr s' \<and> I (k + 1) s'"
    if "a \<le> k" "k < b" "I k s" for k s
    using vec_put2_shape[of T N s r k "g k"] that assms by (auto simp: I_def)
  from for_up_total[where I = I and body = "\<lambda>k fb. vec_put2 fb r k (g k)" and i = a and n = b
      and st = fb, OF _ step]
  show ?thesis using assms(1) by (auto simp: I_def)
qed

lemma create_mel_filterbank_total:
  assumes "0 \<le> nfft" and "0 < sample_rate"
  shows "\<exists>fb. create_mel_filterbank nfft sample_rate = Inr fb \<and>
           has_shape 26 (nat (nfft div 2 + 1)) fb"
proof -
  define high where "high = hz_to_mel (sample_rate / 2)"
  define R where "R = nat (nfft div 2 + 1)"
  have high: "0 \<le> high" using assms(2) by (simp add: high_def hz_to_mel_nonneg)
  define mbody where "mbody = (\<lambda>i mel_points.
               vec_put mel_points i
                 (hz_to_mel 0 + real_of_int i * (high - hz_to_mel 0) / real_of_int (26 + 2 - 1)))"
  define MI where "MI = (\<lambda>(k::int) (mp :: real list). length mp = 28 \<and>
     (\<forall>i < nat k. 0 \<le> mp ! i \<and> mp ! i \<le> high))"
  have mstep: "\<exists>s'. mbody k s = Inr s' \<and> MI (k + 1) s'"
    if "0 \<le> k" "k < 28" "MI k s" for k s
  proof -
    have "real_of_int k \<le> 27" using that by simp
    then have "real_of_int k * high \<le> 27 * high" using high by (rule mult_right_mono)
    then have v: "0 \<le> real_of_int k * high / 27" "real_of_int k * high / 27 \<le> high"
      using that high by simp_all
    have "MI (k + 1) (s[nat k := real_of_int k * high / 27])"
      unfolding MI_def
    proof (intro conjI allI impI)
      show "length (s[nat k := real_of_int k * high / 27]) = 28" using that by (simp add: MI_def)
      fix i assume "i < nat (k + 1)"
      then have "i < nat k \<or> i = nat k" using that by auto
      then show "0 \<le> s[nat k := real_of_int k * high / 27] ! i"
        using that v by (auto simp: MI_def nth_list_update)
      from \<open>i < nat k \<or> i = nat k\<close> show "s[nat k := real_of_int k * high / 27] ! i \<le> high"
        using that v by (auto simp: MI_def nth_list_update)
    qed
    then show ?thesis
      using that by (simp add: mbody_def MI_def vec_put_def hz_to_mel_zero)
  qed
  have "MI 0 (replicate 28 0)" by (simp add: MI_def)
  from for_up_total[where I = MI and body = mbody and i = 0 and n = 28, OF this mstep]
  obtain mp where mp: "for_up 0 28 mbody (replicate 28 0) = Inr mp" "length mp = 28"
    "\<And>i. i < 28 \<Longrightarrow> 0 \<le> mp ! i \<and> mp ! i \<le> high"
    by (auto simp: MI_def)
  define bbody where "bbody = (\<lambda>i bin_points.
               bindE (vec_at mp i) (\<lambda>m.
                 vec_put bin_points i \<lfloor>real_of_int (nfft + 1) * mel_to_hz m / sample_rate\<rfloor>))"
  define BI where "BI = (\<lambda>(k::int) (bp :: int list). length bp = 28 \<and>
     (\<forall>i < nat k. 0 \<le> bp ! i \<and> bp ! i \<le> (nfft + 1) div 2))"
  have bstep: "\<exists>s'. bbody k s = Inr s' \<and> BI (k + 1) s'"
    if "0 \<le> k" "k < 28" "BI k s" for k s
  proof -
    define v where "v = \<lfloor>real_of_int (nfft + 1) * mel_to_hz (mp ! nat k) / sample_rate\<rfloor>"
    have "nat k < 28" using that by auto
    from mp(3)[OF this] have v: "0 \<le> v" "v \<le> (nfft + 1) div 2"
      using bin_point_bounds[OF assms, of "mp ! nat k"] by (simp_all add: v_def high_def)
    have "BI (k + 1) (s[nat k := v])"
      unfolding BI_def
    proof (intro conjI allI impI)
      show "length (s[nat k := v]) = 28" using that by (simp add: BI_def)
      fix i assume "i < nat (k + 1)"
      then have "i < nat k \<or> i = nat k" using that by auto
      then show "0 \<le> s[nat k := v] ! i"
        using that v by (auto simp: BI_def nth_list_update)
      from \<open>i < nat k \<or> i = nat k\<close> show "s[nat k := v] ! i \<le> (nfft + 1) div 2"
        using that v by (auto simp: BI_def nth_list_update)
    qed
    then show ?thesis
      using that mp(2) by (simp add: bbody_def BI_def vec_put_def vec_at_def v_def)
  qed
  have "BI 0 (replicate 28 0)" by (simp add: BI_def)
  from for_up_total[where I = BI and body = bbody and i = 0 and n = 28, OF this bstep]
  obtain bp where bp: "for_up 0 28 bbody (replicate 28 0) = Inr bp" "length bp = 28"
    "\<And>i. i < 28 \<Longrightarrow> 0 \<le> bp ! i \<and> bp ! i \<le> (nfft + 1) div 2"
    by (auto simp: BI_def)
  define fbody where "fbody = (\<lambda>m filterbank.
          bindE (vec_at bp (m - 1)) (\<lambda>f_m_minus.
          bindE (vec_at bp m) (\<lambda>f_m.
          bindE (vec_at bp (m + 1)) (\<lambda>f_m_plus.
          bindE (for_up f_m_minus f_m (\<lambda>k filterbank.
                   vec_put2 filterbank (m - 1) k
                     (real_of_int (k - f_m_minus) / real_of_int (f_m - f_m_minus))) filterbank)
            (\<lambda>filterbank.
              for_up f_m f_m_plus (\<lambda>k filterbank.
                vec_put2 filterbank (m - 1) k
                  (real_of_int (f_m_plus - k) / real_of_int (f_m_plus - f_m))) filterbank)))))"
  define FI where "FI = (\<lambda>(k::int) (fb :: real list list). has_shape 26 R fb)"
  have top: "(nfft + 1) div 2 \<le> int R" using assms(1) by (simp add: R_def)
  have fstep: "\<exists>s'. fbody k s = Inr s' \<and> FI (k + 1) s'"
    if k: "1 \<le> k" "k < 27" "FI k s" for k s
  proof -
    have i: "nat (k - 1) < 28" "nat k < 28" "nat (k + 1) < 28" using k by auto
    note b1 = bp(3)[OF i(1)] and b2 = bp(3)[OF i(2)] and b3 = bp(3)[OF i(3)]
    have sh: "has_shape 26 R s" using k by (simp add: FI_def)
    from for_up_put2_total[OF sh, of "k - 1" "bp ! nat (k - 1)" "bp ! nat k"
        "\<lambda>j. real_of_int (j - bp ! nat (k - 1)) / real_of_int (bp ! nat k - bp ! nat (k - 1))"]
    obtain s1 where s1: "for_up (bp ! nat (k - 1)) (bp ! nat k) (\<lambda>j fb.
        vec_put2 fb (k - 1) j
          (real_of_int (j - bp ! nat (k - 1)) / real_of_int (bp ! nat k - bp ! nat (k - 1)))) s = Inr s1"
      "has_shape 26 R s1"
      using k b1 b2 top by auto
    from for_up_put2_total[OF s1(2), of "k - 1" "bp ! nat k" "bp ! nat (k + 1)"
        "\<lambda>j. real_of_int (bp ! nat (k + 1) - j) / real_of_int (bp ! nat (k + 1) - bp ! nat k)"]
    obtain s2 where s2: "for_up (bp ! nat k) (bp ! nat (k + 1)) (\<lambda>j fb.
        vec_put2 fb (k - 1) j
          (real_of_int (bp ! nat (k + 1) - j) / real_of_int (bp ! nat (k + 1) - bp ! nat k))) s1 = Inr s2"
      "has_shape 26 R s2"
      using k b2 b3 top by auto
    show ?thesis
      using k bp(2) s1 s2 by (simp add: fbody_def FI_def vec_at_def)
  qed
  have "FI 1 (replicate 26 (replicate R 0))" by (simp add: FI_def has_shape_replicate)
  from for_up_total[where I = FI and body = fbody and i = 1 and n = 27, OF this fstep]
  obtain fb where fb: "for_up 1 27 fbody (replicate 26 (replicate R 0)) = Inr fb"
    "has_shape 26 R fb"
    by (auto simp: FI_def)
  have "0 \<le> nfft div 2" using assms(1) by simp
  then have "create_mel_filterbank nfft sample_rate = Inr fb"
    using assms(1) mp(1)[unfolded mbody_def] bp(1)[unfolded bbody_def] fb(1)[unfolded fbody_def]
    by (simp add: create_mel_filterbank_def Let_def NUM_MEL_FILTERS_def new_vector_def
        int_div_two R_def[symmetric] high_def[symmetric])
  then show ?thesis using fb(2) by (simp add: R_def)
qed

text \<open>
  The accumulation reads \<open>filterbank[i][j]\<close> for every \<open>j\<close> below the size of the spectrum:
  inside the rows when the spectrum is not longer than a row, and past the end of row
  \<open>0\<close> at \<open>j = frame_length / 2 + 1\<close> when it is.
\<close>

lemma mel_accumulate_total:
  assumes "has_shape 26 R fb" and "length spectrum \<le> R"
  shows "\<exists>me. mel_accumulate spectrum fb = Inr me"
proof -
  define inner where "inner = (\<lambda>(i::int) j (mel_energies :: real list).
                  bindE (vec_at mel_energies i) (\<lambda>e.
                  bindE (vec_at spectrum j) (\<lambda>sp.
                  bindE (vec_at2 fb i j) (\<lambda>f.
                    vec_put mel_energies i (e + sp * f)))))"
  define body where "body = (\<lambda>i mel_energies.
         bindE (for_up 0 (int (length spectrum)) (inner i) mel_energies) (\<lambda>mel_energies.
         bindE (vec_at mel_energies i) (\<lambda>e.
           vec_put mel_energies i (ln (e + 1 / 10 ^ 10)))))"
  define I where "I = (\<lambda>(k::int) (me :: real list). length me = 26)"
  have inner: "\<exists>me'. for_up 0 (int (length spectrum)) (inner i) me = Inr me' \<and> length me' = 26"
    if i: "0 \<le> i" "i < 26" and me: "length me = 26" for i me
  proof -
    have "\<exists>s'. inner i j s = Inr s' \<and> I (j + 1) s'"
      if j: "0 \<le> j" "j < int (length spectrum)" "I j s" for j s
    proof -
      have "vec_at2 fb i j = Inr (fb ! nat i ! nat j)"
        using i j assms(2) by (intro vec_at2_shape[OF assms(1)]) auto
      then show ?thesis
        using i j by (simp add: inner_def I_def vec_at_def vec_put_def)
    qed
    from for_up_total[where I = I and body = "inner i" and i = 0
        and n = "int (length spectrum)" and st = me, OF _ this]
    show ?thesis using me by (auto simp: I_def)
  qed
  have step: "\<exists>s'. body k s = Inr s' \<and> I (k + 1) s'" if k: "0 \<le> k" "k < 26" "I k s" for k s
  proof -
    from inner[OF k(1,2), of s] k(3) obtain me' where
      "for_up 0 (int (length spectrum)) (inner k) s = Inr me'" "length me' = 26"
      by (auto simp: I_def)
    then show ?thesis using k by (simp add: body_def I_def vec_at_def vec_put_def)
  qed
  have "I 0 (replicate 26 0)" by (simp add: I_def)
  from for_up_total[where I = I and body = body and i = 0 and n = 26, OF this step]
  obtain me where "for_up 0 26 body (replicate 26 0) = Inr me" by auto
  then show ?thesis
    by (simp add: mel_accumulate_def NUM_MEL_FILTERS_def new_vector_def body_def inner_def)
qed

lemma mel_accumulate_out_of_bounds:
  assumes "has_shape 26 R fb" and "R < length spectrum"
  shows "mel_accumulate spectrum fb = Inl OutOfBounds"
proof -
  define inner where "inner = (\<lambda>(i::int) j (mel_energies :: real list).
                  bindE (vec_at mel_energies i) (\<lambda>e.
                  bindE (vec_at spectrum j) (\<lambda>sp.
                  bindE (vec_at2 fb i j) (\<lambda>f.
                    vec_put mel_energies i (e + sp * f)))))"
  define body where "body = (\<lambda>i mel_energies.
         bindE (for_up 0 (int (length spectrum)) (inner i) mel_energies) (\<lambda>mel_energies.
         bindE (vec_at mel_energies i) (\<lambda>e.
           vec_put mel_energies i (ln (e + 1 / 10 ^ 10)))))"
  define I where "I = (\<lambda>(k::int) (me :: real list). length me = 26)"
  have row: "length (fb ! 0) = R" using has_shape_row[OF assms(1), of 0] by simp
  have inner: "for_up 0 (int (length spectrum)) (inner 0) me = Inl OutOfBounds"
    if me: "length me = 26" for me
  proof (rule for_up_fails[where I = I and ?k0.0 = "int R"])
    show "0 \<le> int R" by simp
    show "int R < int (length spectrum)" using assms(2) by simp
    show "I 0 me" using me by (simp add: I_def)
    show "\<exists>s'. inner 0 j s = Inr s' \<and> I (j + 1) s'" if j: "0 \<le> j" "j < int R" "I j s" for j s
    proof -
      have "vec_at2 fb 0 j = Inr (fb ! nat 0 ! nat j)"
        using j by (intro vec_at2_shape[OF assms(1)]) auto
      then show ?thesis
        using j assms(2) by (auto simp: inner_def I_def vec_at_def vec_put_def)
    qed
    show "inner 0 (int R) s = Inl OutOfBounds" if "I (int R) s" for s
    proof -
      have "vec_at2 fb 0 (int R) = Inl OutOfBounds"
        using row assms(1) by (simp add: vec_at2_def vec_at_def has_shape_def)
      then show ?thesis
        using that assms(2) by (auto simp: inner_def I_def vec_at_def)
    qed
  qed
  have "for_up 0 26 body (replicate 26 0) = Inl OutOfBounds"
  proof (rule for_up_fails[where I = I and ?k0.0 = 0])
    show "I 0 (replicate 26 0)" by (simp add: I_def)
    show "body 0 s = Inl OutOfBounds" if "I 0 s" for s
      using inner[of s] that by (simp add: body_def I_def)
  qed simp_all
  then show ?thesis
    by (simp add: mel_accumulate_def NUM_MEL_FILTERS_def new_vector_def body_def inner_def)
qed

lemma extractMFCC_negative_frame_length:
  assumes "frame_length < 0"
  shows "extractMFCC audio_frame frame_length num_coeffs = Inl LengthError"
proof -
  from pre_emphasis_result[of audio_frame] obtain f1 where "pre_emphasis audio_frame = Inr f1"
    by blast
  then show ?thesis
    using assms by (simp add: extractMFCC_def hamming_window_negative)
qed

lemma extractMFCC_stages:
  assumes "0 \<le> frame_length"
  shows "\<exists>spectrum filterbank.
           extractMFCC audio_frame frame_length num_coeffs =
             bindE (mel_accumulate spectrum filterbank) (\<lambda>mel_energies. dct mel_energies num_coeffs) \<and>
           int (length spectrum) = int (length audio_frame) div 2 + 1 \<and>
           has_shape 26 (nat (frame_length div 2 + 1)) filterbank"
proof -
  from pre_emphasis_result[of audio_frame] obtain f1 where
    f1: "pre_emphasis audio_frame = Inr f1" "length f1 = length audio_frame" by blast
  from hamming_window_total[OF assms] obtain w where
    w: "hamming_window frame_length = Inr w" "length w = nat frame_length" by blast
  from apply_window_total[OF w(2) assms, of f1] obtain f2 where
    f2: "apply_window f1 w frame_length = Inr f2" "length f2 = length audio_frame"
    using f1(2) by auto
  from dft_total[of f2] obtain sp where
    sp: "dft f2 = Inr sp" "int (length sp) = int (length audio_frame) div 2 + 1"
    using f2(2) by auto
  from create_mel_filterbank_total[OF assms, of SAMPLE_RATE] obtain fb where
    fb: "create_mel_filterbank frame_length SAMPLE_RATE = Inr fb"
    "has_shape 26 (nat (frame_length div 2 + 1)) fb"
    by (auto simp: SAMPLE_RATE_def)
  show ?thesis
    using f1(1) w(1) f2(1) sp fb by (intro exI[of _ sp] exI[of _ fb]) (simp add: extractMFCC_def)
qed

lemma extractMFCC_out_of_bounds:
  assumes "0 \<le> frame_length" and "frame_length div 2 < int (length audio_frame) div 2"
  shows "extractMFCC audio_frame frame_length num_coeffs = Inl OutOfBounds"
proof -
  from extractMFCC_stages[OF assms(1), of audio_frame num_coeffs] obtain sp fb where
    e: "extractMFCC audio_frame frame_length num_coeffs =
          bindE (mel_accumulate sp fb) (\<lambda>mel_energies. dct mel_energies num_coeffs)"
    and sp: "int (length sp) = int (length audio_frame) div 2 + 1"
    and fb: "has_shape 26 (nat (frame_length div 2 + 1)) fb"
    by blast
  have "nat (frame_length div 2 + 1) < length sp" using sp assms by linarith
  from mel_accumulate_out_of_bounds[OF fb this] show ?thesis using e by simp
qed

lemma extractMFCC_in_bounds:
  assumes "0 \<le> frame_length" and "int (length audio_frame) div 2 \<le> frame_length div 2"
  shows "extractMFCC audio_frame frame_length num_coeffs \<noteq> Inl OutOfBounds"
proof -
  from extractMFCC_stages[OF assms(1), of audio_frame num_coeffs] obtain sp fb where
    e: "extractMFCC audio_frame frame_length num_coeffs =
          bindE (mel_accumulate sp fb) (\<lambda>mel_energies. dct mel_energies num_coeffs)"
    and sp: "int (length sp) = int (length audio_frame) div 2 + 1"
    and fb: "has_shape 26 (nat (frame_length div 2 + 1)) fb"
    by blast
  have "length sp \<le> nat (frame_length div 2 + 1)" using sp assms by linarith
  from mel_accumulate_total[OF fb this] obtain me where me: "mel_accumulate sp fb = Inr me" ..
  show ?thesis
  proof (cases "0 \<le> num_coeffs")
    case True
    from dct_total[OF this, of me] show ?thesis using e me by auto
  next
    case False
    then show ?thesis using e me by (simp add: dct_negative)
  qed
qed

lemma extractMFCC_returns:
  assumes "0 \<le> frame_length" and "0 \<le> num_coeffs"
    and "int (length audio_frame) div 2 \<le> frame_length div 2"
  shows "\<exists>mfcc. extractMFCC audio_frame frame_length num_coeffs = Inr mfcc"
proof -
  from extractMFCC_stages[OF assms(1), of audio_frame num_coeffs] obtain sp fb where
    e: "extractMFCC audio_frame frame_length num_coeffs =
          bindE (mel_accumulate sp fb) (\<lambda>mel_energies. dct mel_energies num_coeffs)"
    and sp: "int (length sp) = int (length audio_frame) div 2 + 1"
    and fb: "has_shape 26 (nat (frame_length div 2 + 1)) fb"
    by blast
  from sp assms(1,3) have "length sp \<le> nat (frame_length div 2 + 1)"
    by linarith
  from mel_accumulate_total[OF fb this] obtain me where me: "mel_accumulate sp fb = Inr me"
    by blast
  from dct_total[OF assms(2), of me] obtain c where "dct me num_coeffs = Inr c"
    by blast
  with e me show ?thesis
    by simp
qed

lemma extractMFCC_out_of_bounds_iff:
  "extractMFCC audio_frame frame_length num_coeffs = Inl OutOfBounds \<longleftrightarrow>
     0 \<le> frame_length \<and> frame_length div 2 < int (length audio_frame) div 2"
proof (cases "0 \<le> frame_length")
  case True
  then show ?thesis
    using extractMFCC_out_of_bounds[of frame_length audio_frame num_coeffs]
      extractMFCC_in_bounds[of frame_length audio_frame num_coeffs]
    by (cases "frame_length div 2 < int (length audio_frame) div 2") auto
next
  case False
  then show ?thesis
    using extractMFCC_negative_frame_length[of frame_length audio_frame num_coeffs] by simp
qed


text \<open>
  C9, as the code has it. \<open>extractMFCC\<close> makes an out-of-bounds access exactly when
  \<open>frame_length \<ge> 0\<close> and \<open>frame.size() / 2 > frame_length / 2\<close>; the access is the read of
  the filter bank in the accumulation loop (\<open>mel_accumulate_out_of_bounds\<close>). In particular
  there is none when the frame has \<open>frame_length\<close> samples. A negative \<open>frame_length\<close> or
  \<open>num_coeffs\<close> makes a vector constructor throw, which is no array access.
\<close>

theorem extractMFCC_bounds:
  "(extractMFCC audio_frame frame_length num_coeffs = Inl OutOfBounds \<longleftrightarrow>
      0 \<le> frame_length \<and> frame_length div 2 < int (length audio_frame) div 2) \<and>
   (int (length audio_frame) = frame_length \<longrightarrow>
      extractMFCC audio_frame frame_length num_coeffs \<noteq> Inl OutOfBounds)"
  using extractMFCC_out_of_bounds_iff[of audio_frame frame_length num_coeffs] by auto

theorem extractMFCC_bounds_witness:
  "extractMFCC [0, 0, 0, 0] 4 13 \<noteq> Inl OutOfBounds \<and>
   extractMFCC [0, 0, 0, 0, 0, 0] 4 13 = Inl OutOfBounds"
  using extractMFCC_bounds[of "[0, 0, 0, 0]" 4 13] extractMFCC_bounds[of "[0, 0, 0, 0, 0, 0]" 4 13]
  by simp


text \<open>
  C9 as stated fails for a frame one sample longer than an even \<open>frame_length\<close>: with five
  samples and \<open>frame_length = 4\<close> the spectrum has three entries and so has every row, and
  the call returns its coefficients.
\<close>

theorem extractMFCC_one_sample_longer:
  "(4 :: int) < int (length [0 :: real, 0, 0, 0, 0]) \<and>
   (\<exists>mfcc. extractMFCC [0, 0, 0, 0, 0] 4 13 = Inr mfcc)"
  using extractMFCC_returns[of 4 13 "[0, 0, 0, 0, 0]"] by simp

end
